theory Spec2Isabelle
  imports Main "HOL-Library.Sublist"
begin

section \<open>Results of C++ operations\<close>

text \<open>
  A call of the renderer either returns, or leaves through a C++ exception, or reads a
  \<^verbatim>\<open>std::string_view\<close> outside its range (undefined behaviour), or does not come
  back within the fuel given to its loops (\<^verbatim>\<open>Renderer::render\<close> and
  \<^verbatim>\<open>Renderer::findEndTag\<close> have loops that need not end).
\<close>

datatype exn = out_of_range | json_kind_error

datatype 'a outcome = Done 'a | Throw exn | Undefined | NoFuel

definition obind :: "'a outcome \<Rightarrow> ('a \<Rightarrow> 'b outcome) \<Rightarrow> 'b outcome" where
  "obind m f =
     (case m of Done x \<Rightarrow> f x | Throw e \<Rightarrow> Throw e | Undefined \<Rightarrow> Undefined | NoFuel \<Rightarrow> NoFuel)"

section \<open>Characters, \<^verbatim>\<open>size_t\<close> and string primitives\<close>

text \<open>\<^verbatim>\<open>std::isspace\<close> and \<^verbatim>\<open>::tolower\<close> in the "C" locale.\<close>

definition isspace :: "char \<Rightarrow> bool" where
  "isspace c = (c \<in> set [CHR '' '', CHR 0x09, CHR 0x0A, CHR 0x0B, CHR 0x0C, CHR 0x0D])"

definition tolower :: "char \<Rightarrow> char" where
  "tolower c =
     (let n = (of_char c :: nat) in if 65 \<le> n \<and> n \<le> 90 then char_of (n + 32) else c)"

text \<open>
  \<^verbatim>\<open>size_t\<close> is 64 bits wide. Positions are natural numbers; the only operation of the
  source that can leave the range is the subtraction, which wraps.
\<close>

definition npos :: nat where
  "npos = 2 ^ 64 - 1"

definition size_sub :: "nat \<Rightarrow> nat \<Rightarrow> nat" where
  "size_sub a b = (if b \<le> a then a - b else a + 2 ^ 64 - b)"

text \<open>
  \<^verbatim>\<open>content.find(marker, pos)\<close>: the least position \<open>\<ge> pos\<close> at which \<open>marker\<close> occurs;
  \<open>None\<close> stands for \<^verbatim>\<open>npos\<close> (no string is as long as \<^verbatim>\<open>npos\<close>, so no position
  found equals it). An empty marker is found at \<open>pos\<close> itself when \<open>pos \<le> size\<close>.
\<close>

fun find_at :: "string \<Rightarrow> string \<Rightarrow> nat \<Rightarrow> nat option" where
  "find_at [] m i = (if m = [] then Some i else None)"
| "find_at (c # cs) m i = (if prefix m (c # cs) then Some i else find_at cs m (Suc i))"

definition find :: "string \<Rightarrow> string \<Rightarrow> nat \<Rightarrow> nat option" where
  "find content m pos =
     (if length content < pos then None else find_at (drop pos content) m pos)"

text \<open>\<^verbatim>\<open>content.substr(pos, n)\<close> throws when \<open>pos > size\<close> and clips \<open>n\<close> otherwise.\<close>

definition substr :: "string \<Rightarrow> nat \<Rightarrow> nat \<Rightarrow> string outcome" where
  "substr content pos n =
     (if length content < pos then Throw out_of_range else Done (take n (drop pos content)))"

text \<open>\<^verbatim>\<open>result.replace(pos, n, 1, c)\<close> and \<^verbatim>\<open>s.insert(pos, t)\<close>, both used in range only.\<close>

definition replace :: "string \<Rightarrow> nat \<Rightarrow> nat \<Rightarrow> char \<Rightarrow> string" where
  "replace result pos n c = take pos result @ [c] @ drop (pos + n) result"

definition insert_at :: "string \<Rightarrow> nat \<Rightarrow> string \<Rightarrow> string" where
  "insert_at s pos t = take pos s @ t @ drop pos s"

section \<open>HTML escaping\<close>

text \<open>\<^verbatim>\<open>Renderer::escapeHtml\<close>: one pass over the characters, appending to \<open>result\<close>.\<close>

definition escapeHtml :: "string \<Rightarrow> string" where
  "escapeHtml input =
     foldl (\<lambda>result c.
        if c = CHR ''&'' then result @ ''&amp;''
        else if c = CHR ''<'' then result @ ''&lt;''
        else if c = CHR ''>'' then result @ ''&gt;''
        else if c = CHR 0x22 then result @ ''&quot;''
        else result @ [c]) [] input"

text \<open>
  \<^verbatim>\<open>Renderer::unescapeHtml\<close>: for each entry of the table, in order, the loop
  \<^verbatim>\<open>while ((pos = result.find(pattern, pos)) != npos) { replace; pos += 1; }\<close>.
  The loop is written for any pattern, and with an empty one it would not end: \<open>None\<close>
  is that case.
\<close>

partial_function (option)
  replace_loop :: "string \<Rightarrow> string \<Rightarrow> char \<Rightarrow> nat \<Rightarrow> string option" where
  "replace_loop result pattern replacement pos =
     (case find result pattern pos of
        None \<Rightarrow> Some result
      | Some p \<Rightarrow>
          replace_loop (replace result p (length pattern) replacement) pattern replacement (p + 1))"

declare replace_loop.simps [code]

definition replacements :: "(string \<times> char) list" where
  "replacements =
     [(''&lt;'', CHR ''<''), (''&gt;'', CHR ''>''), (''&quot;'', CHR 0x22), (''&amp;'', CHR ''&'')]"

fun unescape_passes :: "(string \<times> char) list \<Rightarrow> string \<Rightarrow> string option" where
  "unescape_passes [] result = Some result"
| "unescape_passes ((pattern, replacement) # rest) result =
     (case replace_loop result pattern replacement 0 of
        None \<Rightarrow> None
      | Some r \<Rightarrow> unescape_passes rest r)"

definition unescapeHtml :: "string \<Rightarrow> string option" where
  "unescapeHtml escaped = unescape_passes replacements escaped"

section \<open>Tags and the renderer's fields\<close>

datatype tag_type =
  Null | Value | SectionStart | InvertedSectionStart | SectionEnd | Partial | Comment
  | SetDelimiter

datatype escape_mode = Escape | Unescape | Raw

record Tag =
  tag_type :: tag_type
  tag_key :: string
  tag_start :: nat
  tag_end :: nat
  tag_escapeMode :: escape_mode
  tag_indentation :: nat

text \<open>\<^verbatim>\<open>Tag{}\<close>, the default-initialised tag.\<close>

definition Tag_default :: Tag where
  "Tag_default =
     \<lparr>tag_type = Null, tag_key = [], tag_start = 0, tag_end = 0, tag_escapeMode = Escape,
      tag_indentation = 0\<rparr>"

record renderer =
  m_partialStack :: "string list"
  m_error :: string
  m_errorPos :: "nat option"
  m_errorPartial :: string
  m_tagStartMarker :: string
  m_tagEndMarker :: string
  m_defaultTagStartMarker :: string
  m_defaultTagEndMarker :: string

text \<open>The constructor \<^verbatim>\<open>Renderer()\<close>.\<close>

definition Renderer :: renderer where
  "Renderer =
     \<lparr>m_partialStack = [], m_error = [], m_errorPos = None, m_errorPartial = [],
      m_tagStartMarker = ''{{'', m_tagEndMarker = ''}}'',
      m_defaultTagStartMarker = ''{{'', m_defaultTagEndMarker = ''}}''\<rparr>"

definition setTagMarkers :: "string \<Rightarrow> string \<Rightarrow> renderer \<Rightarrow> renderer" where
  "setTagMarkers startMarker endMarker s =
     s\<lparr>m_defaultTagStartMarker := startMarker, m_defaultTagEndMarker := endMarker\<rparr>"

definition setError :: "string \<Rightarrow> nat \<Rightarrow> renderer \<Rightarrow> renderer" where
  "setError error pos s =
     (let s1 = s\<lparr>m_error := error, m_errorPos := Some pos\<rparr>
      in if m_partialStack s \<noteq> [] then s1\<lparr>m_errorPartial := last (m_partialStack s)\<rparr> else s1)"

section \<open>The tag scanner\<close>

text \<open>
  The loop \<^verbatim>\<open>while (pos < endPos && P(content[pos])) ++pos;\<close> of
  \<^verbatim>\<open>readTagName\<close> and \<^verbatim>\<open>readSetDelimiter\<close>. Reading \<open>content[pos]\<close> at or beyond
  the size of the view is undefined behaviour.
\<close>

function scan_while :: "(char \<Rightarrow> bool) \<Rightarrow> string \<Rightarrow> nat \<Rightarrow> nat \<Rightarrow> nat outcome" where
  "scan_while P content pos endPos =
     (if pos < endPos then
        (if pos < length content then
           (if P (content ! pos) then scan_while P content (pos + 1) endPos else Done pos)
         else Undefined)
      else Done pos)"
  by pat_completeness auto
termination
  by (relation "measure (\<lambda>(P, content, pos, endPos). endPos - pos)") auto

declare scan_while.simps [simp del]

definition readTagName :: "string \<Rightarrow> nat \<Rightarrow> nat \<Rightarrow> string outcome" where
  "readTagName content pos endPos =
     obind (scan_while isspace content pos endPos) (\<lambda>start.
     obind (scan_while (\<lambda>c. \<not> isspace c) content start endPos) (\<lambda>pos'.
       substr content start (pos' - start)))"

text \<open>
  A token loop of \<^verbatim>\<open>readSetDelimiter\<close>: it appends to the marker until whitespace or
  \<open>limit\<close>, and leaves the function through \<^verbatim>\<open>setError\<close> at a \<open>=\<close> (\<open>Inl\<close> of the
  position).
\<close>

function read_marker ::
  "string \<Rightarrow> nat \<Rightarrow> nat \<Rightarrow> string \<Rightarrow> (nat + string \<times> nat) outcome" where
  "read_marker content pos limit marker =
     (if pos < limit then
        (if pos < length content then
           (if isspace (content ! pos) then Done (Inr (marker, pos))
            else if content ! pos = CHR ''='' then Done (Inl pos)
            else read_marker content (pos + 1) limit (marker @ [content ! pos]))
         else Undefined)
      else Done (Inr (marker, pos)))"
  by pat_completeness auto
termination
  by (relation "measure (\<lambda>(content, pos, limit, marker). limit - pos)") auto

declare read_marker.simps [simp del]

definition delimiter_error :: string where
  "delimiter_error = ''Custom delimiters may not contain '' @ [CHR 0x27] @ ''='' @ [CHR 0x27]"

definition readSetDelimiter :: "string \<Rightarrow> nat \<Rightarrow> nat \<Rightarrow> renderer \<Rightarrow> renderer outcome" where
  "readSetDelimiter content pos endPos s =
     obind (scan_while isspace content pos endPos) (\<lambda>p1.
     obind (read_marker content p1 endPos []) (\<lambda>r1.
       case r1 of
         Inl e \<Rightarrow> Done (setError delimiter_error e s)
       | Inr (startMarker, p2) \<Rightarrow>
           obind (scan_while isspace content p2 endPos) (\<lambda>p3.
           obind (read_marker content p3 (size_sub endPos 1) []) (\<lambda>r2.
             case r2 of
               Inl e \<Rightarrow> Done (setError delimiter_error e s)
             | Inr (endMarker, p4) \<Rightarrow>
                 Done (s\<lparr>m_tagStartMarker := startMarker, m_tagEndMarker := endMarker\<rparr>)))))"

text \<open>
  \<^verbatim>\<open>expandTag\<close>, first loop: back to the start of the line. \<open>None\<close> is the early
  \<^verbatim>\<open>return\<close> that leaves the tag as it was.
\<close>

function expand_start :: "string \<Rightarrow> nat \<Rightarrow> nat \<Rightarrow> (nat \<times> nat) option outcome" where
  "expand_start content start indentation =
     (if 0 < start then
        (if start - 1 < length content then
           (if content ! (start - 1) \<noteq> CHR 0x0A then
              (if \<not> isspace (content ! (start - 1)) then Done None
               else if isspace (content ! (start - 1)) \<and> content ! (start - 1) \<noteq> CHR 0x0A
                 then expand_start content (start - 1) (indentation + 1)
               else expand_start content (start - 1) indentation)
            else Done (Some (start, indentation)))
         else Undefined)
      else Done (Some (start, indentation)))"
  by pat_completeness auto
termination
  by (relation "measure (\<lambda>(content, start, indentation). start)") auto

declare expand_start.simps [simp del]

text \<open>
  Second loop: forward to and including the line terminator. With \<open>end = 0\<close> the test
  \<^verbatim>\<open>content[end - 1]\<close> reads at \<^verbatim>\<open>npos\<close>.
\<close>

function expand_end :: "string \<Rightarrow> nat \<Rightarrow> nat option outcome" where
  "expand_end content e =
     (if e < length content then
        (if e = 0 then Undefined
         else if content ! (e - 1) \<noteq> CHR 0x0A then
           (if e < length content \<and> \<not> isspace (content ! e) then Done None
            else expand_end content (e + 1))
         else Done (Some e))
      else Done (Some e))"
  by pat_completeness auto
termination
  by (relation "measure (\<lambda>(content, e). length content - e)") auto

declare expand_end.simps [simp del]

definition expandTag :: "Tag \<Rightarrow> string \<Rightarrow> Tag outcome" where
  "expandTag tag content =
     obind (expand_start content (tag_start tag) 0) (\<lambda>r1.
       case r1 of
         None \<Rightarrow> Done tag
       | Some (start, indentation) \<Rightarrow>
           obind (expand_end content (tag_end tag)) (\<lambda>r2.
             case r2 of
               None \<Rightarrow> Done tag
             | Some e \<Rightarrow>
                 Done (tag\<lparr>tag_start := start, tag_end := e, tag_indentation := indentation\<rparr>)))"

text \<open>
  \<^verbatim>\<open>Renderer::findTag\<close>. It returns the tag and the renderer, whose markers and error
  \<^verbatim>\<open>readSetDelimiter\<close> may have changed. In the raw branch \<open>endTache\<close> may be
  \<^verbatim>\<open>npos\<close>, which then becomes the limit of \<^verbatim>\<open>readTagName\<close>.
\<close>

definition findTag :: "string \<Rightarrow> nat \<Rightarrow> nat \<Rightarrow> renderer \<Rightarrow> (Tag \<times> renderer) outcome" where
  "findTag content pos endPos s =
     (case find content (m_tagStartMarker s) pos of
        None \<Rightarrow> Done (Tag_default, s)
      | Some tagStartPos \<Rightarrow>
          if endPos \<le> tagStartPos then Done (Tag_default, s)
          else
            (case find content (m_tagEndMarker s) (tagStartPos + length (m_tagStartMarker s)) of
               None \<Rightarrow> Done (Tag_default, s)
             | Some found \<Rightarrow>
                 let tagEndPos = found + length (m_tagEndMarker s);
                     tag = Tag_default\<lparr>tag_start := tagStartPos, tag_end := tagEndPos\<rparr>;
                     pos1 = tagStartPos + length (m_tagStartMarker s);
                     endPos1 = tagEndPos - length (m_tagEndMarker s)
                 in
                   if length content \<le> pos1 then Undefined
                   else
                     let typeChar = content ! pos1;
                         named = (\<lambda>t. obind (readTagName content (pos1 + 1) endPos1) (\<lambda>k.
                                   obind (expandTag (tag\<lparr>tag_type := t, tag_key := k\<rparr>) content)
                                     (\<lambda>tag'. Done (tag', s))))
                     in
                       if typeChar = CHR ''#'' then named SectionStart
                       else if typeChar = CHR ''^'' then named InvertedSectionStart
                       else if typeChar = CHR ''/'' then named SectionEnd
                       else if typeChar = CHR ''!'' then
                         obind (expandTag (tag\<lparr>tag_type := Comment\<rparr>) content)
                           (\<lambda>tag'. Done (tag', s))
                       else if typeChar = CHR ''>'' then named Partial
                       else if typeChar = CHR ''='' then
                         obind (readSetDelimiter content (pos1 + 1)
                                  (tagEndPos - length (m_tagEndMarker s)) s) (\<lambda>s'.
                         obind (expandTag (tag\<lparr>tag_type := SetDelimiter\<rparr>) content)
                           (\<lambda>tag'. Done (tag', s')))
                       else if typeChar = CHR ''&'' then
                         obind (readTagName content (pos1 + 1) endPos1) (\<lambda>k.
                           Done (tag\<lparr>tag_type := Value, tag_key := k,
                                      tag_escapeMode := Unescape\<rparr>, s))
                       else if typeChar = CHR ''{'' then
                         (let endTache = find content ''}'' (pos1 + 1) in
                          if endTache = Some (tagEndPos - length (m_tagEndMarker s)) then
                            obind (readTagName content (pos1 + 1) endPos1) (\<lambda>k.
                              Done (tag\<lparr>tag_type := Value, tag_key := k, tag_end := tagEndPos + 1,
                                         tag_escapeMode := Raw\<rparr>, s))
                          else
                            obind (readTagName content (pos1 + 1)
                                     (case endTache of None \<Rightarrow> npos | Some e \<Rightarrow> e)) (\<lambda>k.
                              Done (tag\<lparr>tag_type := Value, tag_key := k,
                                         tag_escapeMode := Raw\<rparr>, s)))
                       else
                         obind (readTagName content pos1 endPos1) (\<lambda>k.
                           Done (tag\<lparr>tag_type := Value, tag_key := k\<rparr>, s))))"

text \<open>
  \<^verbatim>\<open>Renderer::findEndTag\<close>. Its \<^verbatim>\<open>while (true)\<close> consumes one unit of fuel per
  round. \<open>tagDepth\<close> is a C++ \<^verbatim>\<open>int\<close>, kept unbounded here.
\<close>

definition mismatch_error :: string where
  "mismatch_error = ''Tag start/end key mismatch''"

fun findEndTag_loop ::
  "nat \<Rightarrow> string \<Rightarrow> Tag \<Rightarrow> nat \<Rightarrow> int \<Rightarrow> nat \<Rightarrow> renderer \<Rightarrow> (Tag \<times> renderer) outcome" where
  "findEndTag_loop 0 content startTag endPos tagDepth pos s = NoFuel"
| "findEndTag_loop (Suc n) content startTag endPos tagDepth pos s =
     (case findTag content pos endPos s of
        Done (nextTag, s1) \<Rightarrow>
          if tag_type nextTag = Null then Done (nextTag, s1)
          else if tag_type nextTag = SectionStart \<or> tag_type nextTag = InvertedSectionStart then
            findEndTag_loop n content startTag endPos (tagDepth + 1) (tag_end nextTag) s1
          else if tag_type nextTag = SectionEnd then
            (if tagDepth - 1 = 0 then
               (if tag_key nextTag \<noteq> tag_key startTag
                then Done (Tag_default, setError mismatch_error (tag_start nextTag) s1)
                else Done (nextTag, s1))
             else findEndTag_loop n content startTag endPos (tagDepth - 1) (tag_end nextTag) s1)
          else findEndTag_loop n content startTag endPos tagDepth (tag_end nextTag) s1
      | Throw e \<Rightarrow> Throw e
      | Undefined \<Rightarrow> Undefined
      | NoFuel \<Rightarrow> NoFuel)"

definition findEndTag ::
  "nat \<Rightarrow> string \<Rightarrow> Tag \<Rightarrow> nat \<Rightarrow> renderer \<Rightarrow> (Tag \<times> renderer) outcome" where
  "findEndTag fuel content startTag endPos s =
     findEndTag_loop fuel content startTag endPos 1 (tag_end startTag) s"

section \<open>Data sources\<close>

text \<open>
  The values of Boost.JSON and the trees of Boost.PropertyTree. A \<^verbatim>\<open>double\<close> is kept
  abstract (type \<open>'d\<close>). A property tree is a node with a data string and an ordered
  list of keyed children.
\<close>

datatype 'd json =
  JNull | JBool bool | JInt64 int | JUInt64 nat | JDouble 'd | JString string
  | JArray "'d json list" | JObject "(string \<times> 'd json) list"

datatype ptree = PTree (ptree_data: string) (ptree_children: "(string \<times> ptree) list")

text \<open>
  What the source takes from the C++ and Boost libraries and this development does not
  look into: the text of a \<^verbatim>\<open>double\<close> under the stream formatting both
  \<^verbatim>\<open>stringValue\<close> functions use, and the stream translators of Boost.PropertyTree
  (\<^verbatim>\<open>get_value<bool>\<close>, \<^verbatim>\<open>get_value_optional<double>\<close>, and
  \<^verbatim>\<open>get_value_optional<float>\<close> followed by its formatting).
\<close>

record 'd platform =
  format_double :: "'d \<Rightarrow> string"
  parse_double :: "string \<Rightarrow> 'd option"
  parse_bool :: "string \<Rightarrow> bool option"
  float_text :: "string \<Rightarrow> string option"

text \<open>Decimal digits: \<^verbatim>\<open>std::to_string\<close> of a signed integer, and the reading of a digit run.\<close>

fun digits :: "nat \<Rightarrow> string" where
  "digits n = (if n < 10 then [char_of (48 + n)] else digits (n div 10) @ [char_of (48 + n mod 10)])"

definition to_string :: "int \<Rightarrow> string" where
  "to_string i = (if i < 0 then CHR ''-'' # digits (nat (- i)) else digits (nat i))"

definition isdigit :: "char \<Rightarrow> bool" where
  "isdigit c = (let n = (of_char c :: nat) in 48 \<le> n \<and> n \<le> 57)"

definition digits_value :: "string \<Rightarrow> nat" where
  "digits_value ds = foldl (\<lambda>v c. 10 * v + (of_char c - 48)) 0 ds"

text \<open>
  The translator of Boost.PropertyTree for \<^verbatim>\<open>bool\<close>, which is the stream extraction
  \<^verbatim>\<open>s >> e; if (s.fail()) { s.clear(); s.setf(boolalpha); s >> e; } if (!s.eof()) s >> ws;\<close>
  followed by the test that nothing is left. The first extraction skips whitespace and
  reads an integer (a sign, then digits) that has to be 0 or 1; when it fails, the second
  one reads \<open>true\<close> or \<open>false\<close> from where the first one stopped. So \<open>0\<close>, \<open>00\<close>,
  \<open>-0\<close> and \<open>false\<close> are false, \<open>1\<close>, \<open>+1\<close>, \<open>01\<close> and \<open>true\<close> are true, each
  with whitespace around it; the empty text and \<open>False\<close> are no \<^verbatim>\<open>bool\<close>.
\<close>

definition boost_parse_bool :: "string \<Rightarrow> bool option" where
  "boost_parse_bool text =
     (let t = dropWhile isspace text;
          negative = (case t of [] \<Rightarrow> False | c # cs \<Rightarrow> c = CHR ''-'');
          t1 = (case t of [] \<Rightarrow> [] | c # cs \<Rightarrow> if c = CHR ''+'' \<or> c = CHR ''-'' then cs else t);
          ds = takeWhile isdigit t1;
          rest = dropWhile isdigit t1;
          in_range = (if negative then digits_value ds = 0 else digits_value ds \<le> 1)
      in if ds \<noteq> [] \<and> in_range then
           (if dropWhile isspace rest = [] then Some (digits_value ds = 1) else None)
         else
           (let w = dropWhile isspace rest
            in if prefix ''true'' w then
                 (if dropWhile isspace (drop 4 w) = [] then Some True else None)
               else if prefix ''false'' w then
                 (if dropWhile isspace (drop 5 w) = [] then Some False else None)
               else None))"

text \<open>
  A platform for data whose numbers are whole numbers below \<open>2 ^ 53\<close> in magnitude. Such
  a text (whitespace, a sign, digits, whitespace) is read by
  \<^verbatim>\<open>get_value_optional<double>\<close> as the \<^verbatim>\<open>double\<close> of that value, kept here as
  sign and magnitude, and the formatting of \<^verbatim>\<open>stringValue\<close> (fixed, no decimals, for
  a value that is its own floor) prints its digits, with the sign if it is negative.
  Texts with a fraction or an exponent and larger numbers are outside this platform,
  which reads them as no number.
\<close>

type_synonym whole = "bool \<times> nat"

definition read_whole :: "string \<Rightarrow> whole option" where
  "read_whole text =
     (let t = dropWhile isspace text;
          negative = (case t of [] \<Rightarrow> False | c # cs \<Rightarrow> c = CHR ''-'');
          t1 = (case t of [] \<Rightarrow> [] | c # cs \<Rightarrow> if c = CHR ''+'' \<or> c = CHR ''-'' then cs else t);
          ds = takeWhile isdigit t1;
          rest = dropWhile isdigit t1
      in if ds \<noteq> [] \<and> dropWhile isspace rest = [] \<and> digits_value ds < 2 ^ 53
         then Some (negative, digits_value ds) else None)"

definition print_whole :: "whole \<Rightarrow> string" where
  "print_whole w = (if fst w then CHR ''-'' # digits (snd w) else digits (snd w))"

definition plain_platform :: "whole platform" where
  "plain_platform =
     \<lparr>format_double = print_whole, parse_double = read_whole,
      parse_bool = boost_parse_bool, float_text = (\<lambda>text. None)\<rparr>"

text \<open>
  The two classes derived from \<^verbatim>\<open>Context\<close>, each with its \<^verbatim>\<open>m_contextStack\<close>
  (most recent frame last) and the partial resolver of the base class (\<open>None\<close> is the
  null pointer; a resolver maps a name to the text of the partial).
\<close>

datatype 'd Context =
  PropertyTreeContext "ptree list" "(string \<Rightarrow> string) option"
| JsonContext "'d json list" "(string \<Rightarrow> string) option"

text \<open>
  \<^verbatim>\<open>ptree::get_child_optional(path)\<close>: the path is cut at each \<open>.\<close>; the empty path is
  the node itself; a fragment selects the first child of that key.
\<close>

function walk_path :: "ptree \<Rightarrow> string \<Rightarrow> ptree option" where
  "walk_path t p =
     (if p = [] then Some t
      else
        (case map_of (ptree_children t) (takeWhile (\<lambda>c. c \<noteq> CHR ''.'') p) of
           None \<Rightarrow> None
         | Some child \<Rightarrow> walk_path child (drop 1 (dropWhile (\<lambda>c. c \<noteq> CHR ''.'') p))))"
  by pat_completeness auto
termination
  apply (relation "measure (\<lambda>(t, p). length p)")
   apply simp
  subgoal for t p child
    using length_dropWhile_le [of "\<lambda>c. c \<noteq> CHR ''.''" p] by (cases p) auto
  done

declare walk_path.simps [simp del]

fun pt_lookup :: "ptree list \<Rightarrow> string \<Rightarrow> ptree" where
  "pt_lookup [] key = PTree [] []"
| "pt_lookup (frame # frames) key =
     (case walk_path frame key of Some child \<Rightarrow> child | None \<Rightarrow> pt_lookup frames key)"

text \<open>\<^verbatim>\<open>m_contextStack.back()\<close> on an empty vector is undefined behaviour.\<close>

definition pt_getValue :: "ptree list \<Rightarrow> string \<Rightarrow> ptree outcome" where
  "pt_getValue stack key =
     (if key = ''.'' then (if stack = [] then Undefined else Done (last stack))
      else Done (pt_lookup (rev stack) key))"

fun js_lookup :: "'d json list \<Rightarrow> string \<Rightarrow> 'd json" where
  "js_lookup [] key = JNull"
| "js_lookup (JObject obj # frames) key =
     (case map_of obj key of Some v \<Rightarrow> v | None \<Rightarrow> js_lookup frames key)"
| "js_lookup (frame # frames) key = js_lookup frames key"

definition js_getValue :: "'d json list \<Rightarrow> string \<Rightarrow> 'd json outcome" where
  "js_getValue stack key =
     (if key = ''.'' then (if stack = [] then Undefined else Done (last stack))
      else Done (js_lookup (rev stack) key))"

text \<open>\<^verbatim>\<open>std::string str = value.as_string().c_str()\<close> ends at the first NUL.\<close>

definition c_str :: "string \<Rightarrow> string" where
  "c_str text = takeWhile (\<lambda>c. c \<noteq> CHR 0x00) text"

definition pt_isFalse :: "'d platform \<Rightarrow> ptree list \<Rightarrow> string \<Rightarrow> bool outcome" where
  "pt_isFalse P stack key =
     obind (pt_getValue stack key) (\<lambda>v.
       case parse_bool P (ptree_data v) of
         Some boolValue \<Rightarrow> Done (\<not> boolValue)
       | None \<Rightarrow> Done (map tolower (ptree_data v) = ''false'' \<or> ptree_data v = []))"

definition js_isFalse :: "'d json list \<Rightarrow> string \<Rightarrow> bool outcome" where
  "js_isFalse stack key =
     obind (js_getValue stack key) (\<lambda>v.
       case v of
         JBool b \<Rightarrow> Done (\<not> b)
       | JString text \<Rightarrow> Done (map tolower (c_str text) = ''false'' \<or> c_str text = [])
       | JNull \<Rightarrow> Done True
       | _ \<Rightarrow> Done False)"

definition isFalse :: "'d platform \<Rightarrow> 'd Context \<Rightarrow> string \<Rightarrow> bool outcome" where
  "isFalse P c key =
     (case c of
        PropertyTreeContext stack resolver \<Rightarrow> pt_isFalse P stack key
      | JsonContext stack resolver \<Rightarrow> js_isFalse stack key)"

definition pt_stringValue :: "'d platform \<Rightarrow> ptree list \<Rightarrow> string \<Rightarrow> string outcome" where
  "pt_stringValue P stack key =
     obind (pt_getValue stack key) (\<lambda>v.
       case parse_double P (ptree_data v) of
         Some d \<Rightarrow> Done (format_double P d)
       | None \<Rightarrow>
           (case float_text P (ptree_data v) of
              Some text \<Rightarrow> Done text
            | None \<Rightarrow> Done (ptree_data v)))"

text \<open>\<^verbatim>\<open>as_int64()\<close> throws for a number stored as \<^verbatim>\<open>uint64\<close>.\<close>

definition js_stringValue :: "'d platform \<Rightarrow> 'd json list \<Rightarrow> string \<Rightarrow> string outcome" where
  "js_stringValue P stack key =
     obind (js_getValue stack key) (\<lambda>v.
       case v of
         JDouble d \<Rightarrow> Done (format_double P d)
       | JString text \<Rightarrow> Done text
       | JBool b \<Rightarrow> Done (if b then ''true'' else ''false'')
       | JInt64 i \<Rightarrow> Done (to_string i)
       | JUInt64 n \<Rightarrow> Throw json_kind_error
       | _ \<Rightarrow> Done [])"

definition stringValue :: "'d platform \<Rightarrow> 'd Context \<Rightarrow> string \<Rightarrow> string outcome" where
  "stringValue P c key =
     (case c of
        PropertyTreeContext stack resolver \<Rightarrow> pt_stringValue P stack key
      | JsonContext stack resolver \<Rightarrow> js_stringValue P stack key)"

definition listCount :: "'d Context \<Rightarrow> string \<Rightarrow> nat outcome" where
  "listCount c key =
     (case c of
        PropertyTreeContext stack resolver \<Rightarrow>
          obind (pt_getValue stack key) (\<lambda>v. Done (length (ptree_children v)))
      | JsonContext stack resolver \<Rightarrow>
          obind (js_getValue stack key) (\<lambda>v.
            case v of JArray arr \<Rightarrow> Done (length arr) | _ \<Rightarrow> Done 0))"

text \<open>
  \<^verbatim>\<open>push(key, index)\<close>; the default \<open>index\<close> is \<open>-1\<close>. The loop of the property-tree
  version stops at the child whose running number is \<open>index\<close>.
\<close>

definition pt_push :: "ptree list \<Rightarrow> string \<Rightarrow> int \<Rightarrow> ptree list outcome" where
  "pt_push stack key index =
     obind (pt_getValue stack key) (\<lambda>v.
       if ptree_children v = [] then Done (stack @ [PTree [] []])
       else if 0 \<le> index then
         (if nat index < length (ptree_children v)
          then Done (stack @ [snd (ptree_children v ! nat index)])
          else Done (stack @ [PTree [] []]))
       else Done (stack @ [v]))"

definition js_push :: "'d json list \<Rightarrow> string \<Rightarrow> int \<Rightarrow> 'd json list outcome" where
  "js_push stack key index =
     obind (js_getValue stack key) (\<lambda>v.
       case v of
         JNull \<Rightarrow> Done (stack @ [JNull])
       | JArray arr \<Rightarrow>
           if 0 \<le> index then
             (if nat index < length arr then Done (stack @ [arr ! nat index])
              else Done (stack @ [JNull]))
           else Done (stack @ [v])
       | _ \<Rightarrow> Done (stack @ [v]))"

definition push :: "'d Context \<Rightarrow> string \<Rightarrow> int \<Rightarrow> 'd Context outcome" where
  "push c key index =
     (case c of
        PropertyTreeContext stack resolver \<Rightarrow>
          obind (pt_push stack key index) (\<lambda>stack'. Done (PropertyTreeContext stack' resolver))
      | JsonContext stack resolver \<Rightarrow>
          obind (js_push stack key index) (\<lambda>stack'. Done (JsonContext stack' resolver)))"

definition pop :: "'d Context \<Rightarrow> 'd Context" where
  "pop c =
     (case c of
        PropertyTreeContext stack resolver \<Rightarrow>
          PropertyTreeContext (if stack \<noteq> [] then butlast stack else stack) resolver
      | JsonContext stack resolver \<Rightarrow>
          JsonContext (if stack \<noteq> [] then butlast stack else stack) resolver)"

text \<open>Neither class has custom functions: \<^verbatim>\<open>canEval\<close> is false, \<^verbatim>\<open>eval\<close> empty.\<close>

definition canEval :: "'d Context \<Rightarrow> string \<Rightarrow> bool" where
  "canEval c key = False"

definition eval :: "'d Context \<Rightarrow> string \<Rightarrow> string \<Rightarrow> string" where
  "eval c key text = []"

definition partialValue :: "'d Context \<Rightarrow> string \<Rightarrow> string" where
  "partialValue c key =
     (case c of
        PropertyTreeContext stack resolver \<Rightarrow>
          (case resolver of None \<Rightarrow> [] | Some getPartial \<Rightarrow> getPartial key)
      | JsonContext stack resolver \<Rightarrow>
          (case resolver of None \<Rightarrow> [] | Some getPartial \<Rightarrow> getPartial key))"


section \<open>The renderer\<close>

type_synonym 'd rendered = "(string \<times> renderer \<times> 'd Context) outcome"

type_synonym 'd step = "(string \<times> nat \<times> renderer \<times> 'd Context) outcome"

text \<open>The conversion of the loop counter (\<^verbatim>\<open>size_t\<close>) to the \<^verbatim>\<open>int\<close> parameter.\<close>

definition size_to_int :: "nat \<Rightarrow> int" where
  "size_to_int i = (let m = i mod 2 ^ 32 in if m < 2 ^ 31 then int m else int m - 2 ^ 32)"

text \<open>
  The list branch of a section: \<^verbatim>\<open>for (i = 0; i < listCount; ++i) { push; output +=
  render(inner span); pop; }\<close>, over the numbers \<open>0, \<dots>, listCount - 1\<close>.
\<close>

fun section_list ::
  "(renderer \<Rightarrow> 'd Context \<Rightarrow> 'd rendered) \<Rightarrow> string \<Rightarrow> nat list \<Rightarrow> string \<Rightarrow> renderer \<Rightarrow>
     'd Context \<Rightarrow> 'd rendered" where
  "section_list inner key [] output s c = Done (output, s, c)"
| "section_list inner key (i # rest) output s c =
     (case push c key (size_to_int i) of
        Done c1 \<Rightarrow>
          (case inner s c1 of
             Done (out, s2, c2) \<Rightarrow> section_list inner key rest (output @ out) s2 (pop c2)
           | Throw e \<Rightarrow> Throw e
           | Undefined \<Rightarrow> Undefined
           | NoFuel \<Rightarrow> NoFuel)
      | Throw e \<Rightarrow> Throw e
      | Undefined \<Rightarrow> Undefined
      | NoFuel \<Rightarrow> NoFuel)"

text \<open>
  The re-indentation loop of the partial case:
  \<^verbatim>\<open>while ((pos = partialContent.find('\n', pos)) != npos) { if (pos < length - 1)
  insert(pos + 1, spaces); pos += indentation + 1; }\<close>.
\<close>

function indent_loop :: "string \<Rightarrow> nat \<Rightarrow> nat \<Rightarrow> string" where
  "indent_loop partialContent indentation pos =
     (case find partialContent [CHR 0x0A] pos of
        None \<Rightarrow> partialContent
      | Some p \<Rightarrow>
          indent_loop
            (if p < size_sub (length partialContent) 1
             then insert_at partialContent (p + 1) (replicate indentation CHR '' '')
             else partialContent)
            indentation (p + indentation + 1))"
  by pat_completeness auto

termination
proof (relation "measure (\<lambda>(partialContent, indentation, pos). length partialContent - pos)")
  show "wf (measure (\<lambda>(partialContent, indentation, pos). length partialContent - pos))"
    by simp
next
  fix partialContent :: string and indentation pos p :: nat
  assume f: "find partialContent [CHR 0x0A] pos = Some p"
  have at: "find_at xs [CHR 0x0A] i = Some q \<Longrightarrow> i \<le> q \<and> q < i + length xs"
    for xs i q
  proof (induction xs arbitrary: i)
    case Nil
    then show ?case by simp
  next
    case (Cons x xs)
    show ?case
    proof (cases "prefix [CHR 0x0A] (x # xs)")
      case True
      with Cons.prems show ?thesis by simp
    next
      case False
      with Cons.prems have "find_at xs [CHR 0x0A] (Suc i) = Some q" by simp
      from Cons.IH [OF this] show ?thesis by simp
    qed
  qed
  from f have "pos \<le> length partialContent"
    and "find_at (drop pos partialContent) [CHR 0x0A] pos = Some p"
    by (auto simp: find_def split: if_splits)
  with at [of "drop pos partialContent" pos p]
  have b: "pos \<le> p" "p < length partialContent" by auto
  show "((if p < size_sub (length partialContent) 1
           then insert_at partialContent (p + 1) (replicate indentation CHR '' '')
           else partialContent, indentation, p + indentation + 1),
          partialContent, indentation, pos)
         \<in> measure (\<lambda>(partialContent, indentation, pos). length partialContent - pos)"
    using b by (auto simp: insert_at_def)
qed

declare indent_loop.simps [simp del]

text \<open>The \<^verbatim>\<open>Value\<close> case: the text appended to the output.\<close>

definition value_case :: "'d platform \<Rightarrow> Tag \<Rightarrow> 'd Context \<Rightarrow> string outcome" where
  "value_case P tag c =
     obind (stringValue P c (tag_key tag)) (\<lambda>v.
       if tag_escapeMode tag = Escape then Done (escapeHtml v)
       else if tag_escapeMode tag = Unescape then
         (case unescapeHtml v of None \<Rightarrow> NoFuel | Some v' \<Rightarrow> Done v')
       else Done v)"

text \<open>
  The cases of the \<^verbatim>\<open>switch\<close> in \<^verbatim>\<open>Renderer::render\<close>. Each takes the output
  with the literal text before the tag already appended, and returns the output, the
  new \<open>lastTagEnd\<close>, the renderer and the context. \<open>self\<close> is the recursive
  \<^verbatim>\<open>render(templ, startPos, endPos, context)\<close>, in the form
  \<open>self templ endPos output startPos\<close> with an empty \<open>output\<close>.
\<close>

definition no_end_section :: string where
  "no_end_section = ''No matching end tag found for section''"

definition no_end_inverted :: string where
  "no_end_inverted = ''No matching end tag found for inverted section''"

definition section_case ::
  "'d platform \<Rightarrow> nat \<Rightarrow>
   (string \<Rightarrow> nat \<Rightarrow> string \<Rightarrow> nat \<Rightarrow> renderer \<Rightarrow> 'd Context \<Rightarrow> 'd rendered) \<Rightarrow>
   string \<Rightarrow> nat \<Rightarrow> Tag \<Rightarrow> string \<Rightarrow> nat \<Rightarrow> renderer \<Rightarrow> 'd Context \<Rightarrow> 'd step" where
  "section_case P fuel self templ endPos tag output lastTagEnd s c =
     obind (findEndTag fuel templ tag endPos s) (\<lambda>(endTag, s1).
       if tag_type endTag = Null then
         Done (output, lastTagEnd,
               (if m_errorPos s1 = None then setError no_end_section (tag_start tag) s1 else s1), c)
       else
         obind (listCount c (tag_key tag)) (\<lambda>count.
           if 0 < count then
             obind (section_list (\<lambda>s' c'. self templ (tag_start endTag) [] (tag_end tag) s' c')
                      (tag_key tag) [0..<count] output s1 c)
               (\<lambda>(output', s2, c2). Done (output', tag_end endTag, s2, c2))
           else if canEval c (tag_key tag) then
             obind (substr templ (tag_end tag) (size_sub (tag_start endTag) (tag_end tag)))
               (\<lambda>inner. Done (output @ eval c (tag_key tag) inner, tag_end endTag, s1, c))
           else
             obind (isFalse P c (tag_key tag)) (\<lambda>false.
               if \<not> false then
                 obind (push c (tag_key tag) (- 1)) (\<lambda>c1.
                 obind (self templ (tag_start endTag) [] (tag_end tag) s1 c1)
                   (\<lambda>(out, s2, c2). Done (output @ out, tag_end endTag, s2, pop c2)))
               else Done (output, tag_end endTag, s1, c))))"

definition inverted_case ::
  "'d platform \<Rightarrow> nat \<Rightarrow>
   (string \<Rightarrow> nat \<Rightarrow> string \<Rightarrow> nat \<Rightarrow> renderer \<Rightarrow> 'd Context \<Rightarrow> 'd rendered) \<Rightarrow>
   string \<Rightarrow> nat \<Rightarrow> Tag \<Rightarrow> string \<Rightarrow> nat \<Rightarrow> renderer \<Rightarrow> 'd Context \<Rightarrow> 'd step" where
  "inverted_case P fuel self templ endPos tag output lastTagEnd s c =
     obind (findEndTag fuel templ tag endPos s) (\<lambda>(endTag, s1).
       if tag_type endTag = Null then
         Done (output, lastTagEnd,
               (if m_errorPos s1 = None then setError no_end_inverted (tag_start tag) s1 else s1), c)
       else
         obind (isFalse P c (tag_key tag)) (\<lambda>false.
           if false then
             obind (self templ (tag_start endTag) [] (tag_end tag) s1 c)
               (\<lambda>(out, s2, c2). Done (output @ out, tag_end endTag, s2, c2))
           else Done (output, tag_end endTag, s1, c)))"

text \<open>\<^verbatim>\<open>m_partialStack.pop_back()\<close> on an empty vector is undefined behaviour.\<close>

definition partial_case ::
  "(string \<Rightarrow> nat \<Rightarrow> string \<Rightarrow> nat \<Rightarrow> renderer \<Rightarrow> 'd Context \<Rightarrow> 'd rendered) \<Rightarrow>
   Tag \<Rightarrow> string \<Rightarrow> renderer \<Rightarrow> 'd Context \<Rightarrow> 'd step" where
  "partial_case self tag output s c =
     (let tagStartMarker = m_tagStartMarker s;
          tagEndMarker = m_tagEndMarker s;
          s1 = s\<lparr>m_tagStartMarker := m_defaultTagStartMarker s,
                 m_tagEndMarker := m_defaultTagEndMarker s,
                 m_partialStack := m_partialStack s @ [tag_key tag]\<rparr>;
          fetched = partialValue c (tag_key tag);
          output1 = (if 0 < tag_indentation tag
                     then output @ replicate (tag_indentation tag) CHR '' '' else output);
          partialContent = (if 0 < tag_indentation tag
                            then indent_loop fetched (tag_indentation tag) 0 else fetched)
      in obind (self partialContent (length partialContent) [] 0 s1 c) (\<lambda>(out, s2, c2).
           if m_partialStack s2 = [] then Undefined
           else Done (output1 @ out, tag_end tag,
                      s2\<lparr>m_partialStack := butlast (m_partialStack s2),
                         m_tagStartMarker := tagStartMarker,
                         m_tagEndMarker := tagEndMarker\<rparr>, c2)))"

definition unexpected_end :: string where
  "unexpected_end = ''Unexpected end tag''"

definition dispatch ::
  "'d platform \<Rightarrow> nat \<Rightarrow>
   (string \<Rightarrow> nat \<Rightarrow> string \<Rightarrow> nat \<Rightarrow> renderer \<Rightarrow> 'd Context \<Rightarrow> 'd rendered) \<Rightarrow>
   string \<Rightarrow> nat \<Rightarrow> Tag \<Rightarrow> string \<Rightarrow> nat \<Rightarrow> renderer \<Rightarrow> 'd Context \<Rightarrow> 'd step" where
  "dispatch P fuel self templ endPos tag output lastTagEnd s c =
     (case tag_type tag of
        Value \<Rightarrow> obind (value_case P tag c) (\<lambda>v. Done (output @ v, tag_end tag, s, c))
      | SectionStart \<Rightarrow> section_case P fuel self templ endPos tag output lastTagEnd s c
      | InvertedSectionStart \<Rightarrow> inverted_case P fuel self templ endPos tag output lastTagEnd s c
      | Partial \<Rightarrow> partial_case self tag output s c
      | SetDelimiter \<Rightarrow> Done (output, tag_end tag, s, c)
      | Comment \<Rightarrow> Done (output, tag_end tag, s, c)
      | SectionEnd \<Rightarrow> Done (output, tag_end tag, setError unexpected_end (tag_start tag) s, c)
      | Null \<Rightarrow> Done (output, lastTagEnd, s, c))"

text \<open>
  One round of \<^verbatim>\<open>while (!m_errorPos) { ... }\<close>; \<open>self\<close> also continues the loop.
\<close>

definition render_iter ::
  "'d platform \<Rightarrow> nat \<Rightarrow>
   (string \<Rightarrow> nat \<Rightarrow> string \<Rightarrow> nat \<Rightarrow> renderer \<Rightarrow> 'd Context \<Rightarrow> 'd rendered) \<Rightarrow>
   string \<Rightarrow> nat \<Rightarrow> string \<Rightarrow> nat \<Rightarrow> renderer \<Rightarrow> 'd Context \<Rightarrow> 'd rendered" where
  "render_iter P fuel self templ endPos output lastTagEnd s c =
     (if m_errorPos s \<noteq> None then Done (output, s, c)
      else
        obind (findTag templ lastTagEnd endPos s) (\<lambda>(tag, s1).
          if tag_type tag = Null then
            obind (substr templ lastTagEnd (size_sub endPos lastTagEnd))
              (\<lambda>rest. Done (output @ rest, s1, c))
          else
            obind (substr templ lastTagEnd (size_sub (tag_start tag) lastTagEnd)) (\<lambda>literal.
            obind (dispatch P fuel self templ endPos tag (output @ literal) lastTagEnd s1 c)
              (\<lambda>(output', lastTagEnd', s2, c2). self templ endPos output' lastTagEnd' s2 c2))))"

text \<open>
  The loop of \<^verbatim>\<open>Renderer::render(templ, startPos, endPos, context)\<close> with fuel: one
  unit for each round and each level of recursion; the rest is the fuel of
  \<^verbatim>\<open>findEndTag\<close>.
\<close>

fun render_loop ::
  "nat \<Rightarrow> 'd platform \<Rightarrow> string \<Rightarrow> nat \<Rightarrow> string \<Rightarrow> nat \<Rightarrow> renderer \<Rightarrow> 'd Context \<Rightarrow>
     'd rendered" where
  "render_loop 0 P templ endPos output lastTagEnd s c = NoFuel"
| "render_loop (Suc n) P templ endPos output lastTagEnd s c =
     render_iter P n (\<lambda>templ' endPos' output' lastTagEnd' s' c'.
         render_loop n P templ' endPos' output' lastTagEnd' s' c')
       templ endPos output lastTagEnd s c"

definition render_span ::
  "nat \<Rightarrow> 'd platform \<Rightarrow> string \<Rightarrow> nat \<Rightarrow> nat \<Rightarrow> renderer \<Rightarrow> 'd Context \<Rightarrow> 'd rendered" where
  "render_span fuel P templ startPos endPos s c = render_loop fuel P templ endPos [] startPos s c"

text \<open>The public \<^verbatim>\<open>Renderer::render(templ, context)\<close>.\<close>

definition render :: "nat \<Rightarrow> 'd platform \<Rightarrow> string \<Rightarrow> renderer \<Rightarrow> 'd Context \<Rightarrow> 'd rendered" where
  "render fuel P templ s c =
     render_span fuel P templ 0 (length templ)
       (s\<lparr>m_error := [], m_errorPos := None, m_errorPartial := [],
          m_tagStartMarker := m_defaultTagStartMarker s,
          m_tagEndMarker := m_defaultTagEndMarker s\<rparr>) c"

section \<open>Auxiliary functions of the proofs\<close>

text \<open>
  What one loop of \<^verbatim>\<open>unescapeHtml\<close> computes on the text from \<open>pos\<close> on, as a
  recursion over that text.
\<close>

fun replaced :: "string \<Rightarrow> char \<Rightarrow> string \<Rightarrow> string" where
  "replaced pat c [] = []"
| "replaced pat c (x # xs) =
     (if prefix pat (x # xs) then c # replaced pat c (drop (length pat - 1) xs)
      else x # replaced pat c xs)"

text \<open>The text of a character when the characters of \<open>cs\<close> are written as entities.\<close>

definition enc :: "string \<Rightarrow> char \<Rightarrow> string" where
  "enc cs c =
     (if c \<notin> set cs then [c]
      else if c = CHR ''&'' then ''&amp;''
      else if c = CHR ''<'' then ''&lt;''
      else if c = CHR ''>'' then ''&gt;''
      else if c = CHR 0x22 then ''&quot;''
      else [c])"

text \<open>The output string of a render that returned.\<close>

definition rendered_output :: "'d rendered \<Rightarrow> string option" where
  "rendered_output r = (case r of Done (out, s, c) \<Rightarrow> Some out | _ \<Rightarrow> None)"

text \<open>The text of \<open>content\<close> from position \<open>a\<close> up to position \<open>b\<close>.\<close>

definition slice :: "string \<Rightarrow> nat \<Rightarrow> nat \<Rightarrow> string" where
  "slice content a b = take (b - a) (drop a content)"

text \<open>The first run of characters that are not whitespace.\<close>

definition first_token :: "string \<Rightarrow> string" where
  "first_token text = takeWhile (\<lambda>c. \<not> isspace c) (dropWhile isspace text)"

text \<open>The key of the tag a scan returned.\<close>

definition found_key :: "(Tag \<times> renderer) outcome \<Rightarrow> string option" where
  "found_key r = (case r of Done (tag, s) \<Rightarrow> Some (tag_key tag) | _ \<Rightarrow> None)"

text \<open>A result without the context, which holds a function and cannot be compared by
  evaluation.\<close>

definition rendered_view :: "'d rendered \<Rightarrow> (string \<times> renderer) option" where
  "rendered_view r = (case r of Done (out, s, c) \<Rightarrow> Some (out, s) | _ \<Rightarrow> None)"

definition step_view :: "'d step \<Rightarrow> (string \<times> nat \<times> renderer) option" where
  "step_view r = (case r of Done (out, l, s, c) \<Rightarrow> Some (out, l, s) | _ \<Rightarrow> None)"






text \<open>
  For the statement of the list iteration: the scopes of the elements of the sequence that
  \<open>key\<close> resolves to, in the order of the sequence. The scope of an element is the
  context \<open>c\<close> with that element as one more frame on top of its stack. The sequence is
  the array of a JSON value and the children of a property-tree node; anything else has
  no elements.
\<close>

definition element_scopes :: "'d Context \<Rightarrow> string \<Rightarrow> 'd Context list outcome" where
  "element_scopes c key =
     (case c of
        PropertyTreeContext stack resolver \<Rightarrow>
          obind (pt_getValue stack key) (\<lambda>v.
            Done (map (\<lambda>child. PropertyTreeContext (stack @ [snd child]) resolver)
                    (ptree_children v)))
      | JsonContext stack resolver \<Rightarrow>
          obind (js_getValue stack key) (\<lambda>v.
            case v of
              JArray arr \<Rightarrow> Done (map (\<lambda>x. JsonContext (stack @ [x]) resolver) arr)
            | _ \<Rightarrow> Done []))"

section \<open>Searching and replacing\<close>

lemma find_at_bounds:
  "find_at xs m i = Some p \<Longrightarrow> i \<le> p \<and> p + length m \<le> i + length xs"
proof (induction xs arbitrary: i)
  case Nil
  then show ?case by (auto split: if_splits)
next
  case (Cons x xs)
  show ?case
  proof (cases "prefix m (x # xs)")
    case True
    then have "length m \<le> length (x # xs)" by (rule prefix_length_le)
    with True Cons.prems show ?thesis by simp
  next
    case False
    with Cons.prems have "find_at xs m (Suc i) = Some p" by simp
    from Cons.IH [OF this] show ?thesis by simp
  qed
qed

lemma find_bounds:
  "find content m pos = Some p \<Longrightarrow> pos \<le> p \<and> p + length m \<le> length content"
  using find_at_bounds [of "drop pos content" m pos p]
  by (auto simp: find_def split: if_splits)

lemma find_at_None_replaced: "find_at xs pat i = None \<Longrightarrow> replaced pat c xs = xs"
  by (induction xs arbitrary: i) (auto split: if_splits)

lemma find_at_Some:
  "find_at xs pat i = Some p \<Longrightarrow>
     i \<le> p \<and> p - i \<le> length xs \<and> prefix pat (drop (p - i) xs) \<and>
     (\<forall>k < p - i. \<not> prefix pat (drop k xs))"
proof (induction xs arbitrary: i)
  case Nil
  then show ?case by (auto split: if_splits)
next
  case (Cons x xs)
  show ?case
  proof (cases "prefix pat (x # xs)")
    case True
    with Cons.prems show ?thesis by simp
  next
    case False
    with Cons.prems have f: "find_at xs pat (Suc i) = Some p" by simp
    from Cons.IH [OF f] have ih: "Suc i \<le> p" "p - Suc i \<le> length xs"
      "prefix pat (drop (p - Suc i) xs)" "\<forall>k < p - Suc i. \<not> prefix pat (drop k xs)"
      by auto
    have e: "p - i = Suc (p - Suc i)" using ih(1) by arith
    have "\<forall>k < p - i. \<not> prefix pat (drop k (x # xs))"
    proof (intro allI impI)
      fix k assume k: "k < p - i"
      show "\<not> prefix pat (drop k (x # xs))"
      proof (cases k)
        case 0
        then show ?thesis using False by simp
      next
        case (Suc j)
        then have "j < p - Suc i" using k e by arith
        then show ?thesis using ih(4) Suc by simp
      qed
    qed
    then show ?thesis using ih e by simp
  qed
qed

lemma replaced_skip:
  "\<forall>k < n. \<not> prefix pat (drop k xs) \<Longrightarrow> n \<le> length xs \<Longrightarrow>
     replaced pat c xs = take n xs @ replaced pat c (drop n xs)"
proof (induction n arbitrary: xs)
  case 0
  then show ?case by simp
next
  case (Suc n)
  then obtain y ys where xs: "xs = y # ys" by (cases xs) auto
  from Suc.prems(1) have np: "\<not> prefix pat (y # ys)" using xs by force
  have "\<forall>k < n. \<not> prefix pat (drop k ys)"
  proof (intro allI impI)
    fix k assume "k < n"
    then have "Suc k < Suc n" by simp
    with Suc.prems(1) have "\<not> prefix pat (drop (Suc k) xs)" by blast
    then show "\<not> prefix pat (drop k ys)" using xs by simp
  qed
  moreover have "n \<le> length ys" using Suc.prems(2) xs by simp
  ultimately have "replaced pat c ys = take n ys @ replaced pat c (drop n ys)"
    by (rule Suc.IH)
  then show ?case using xs np by simp
qed

text \<open>
  With a pattern that is not empty the loop of \<^verbatim>\<open>unescapeHtml\<close> ends, and leaves
  the text before \<open>pos\<close> as it is.
\<close>

lemma replace_loop_replaced:
  "pat \<noteq> [] \<Longrightarrow> pos \<le> length r \<Longrightarrow>
     replace_loop r pat c pos = Some (take pos r @ replaced pat c (drop pos r))"
proof (induction "length r - pos" arbitrary: r pos rule: less_induct)
  case less
  show ?case
  proof (cases "find_at (drop pos r) pat pos")
    case None
    then have "replace_loop r pat c pos = Some r"
      using less.prems(2) by (subst replace_loop.simps) (simp add: find_def)
    moreover have "replaced pat c (drop pos r) = drop pos r"
      using None by (rule find_at_None_replaced)
    ultimately show ?thesis by simp
  next
    case (Some p)
    from find_at_Some [OF Some] have p: "pos \<le> p" "p - pos \<le> length (drop pos r)"
      "prefix pat (drop (p - pos) (drop pos r))"
      "\<forall>k < p - pos. \<not> prefix pat (drop k (drop pos r))" by auto
    have dp: "drop (p - pos) (drop pos r) = drop p r" using p(1) by simp
    from p(3) dp obtain rest where rest: "drop p r = pat @ rest"
      by (auto simp: prefix_def)
    obtain y ys where pat: "pat = y # ys" using less.prems(1) by (cases pat) auto
    have lenr: "p + length pat \<le> length r"
    proof -
      have "length (drop p r) = length pat + length rest" using rest by simp
      then show ?thesis using pat by simp
    qed
    define r' where "r' = replace r p (length pat) c"
    have r': "r' = take p r @ [c] @ drop (p + length pat) r" by (simp add: r'_def replace_def)
    have lr': "length r' = p + 1 + (length r - (p + length pat))"
      using lenr by (simp add: r')
    have step: "replace_loop r pat c pos = replace_loop r' pat c (p + 1)"
      using less.prems(2) Some by (subst replace_loop.simps) (simp add: find_def r'_def)
    have m: "length r' - (p + 1) < length r - pos"
      using lr' lenr p(1) pat by simp
    have b: "p + 1 \<le> length r'" using lr' by simp
    have ih: "replace_loop r' pat c (p + 1) =
        Some (take (p + 1) r' @ replaced pat c (drop (p + 1) r'))"
      by (rule less.hyps [OF m less.prems(1) b])
    have t1: "take (p + 1) r' = take p r @ [c]" using lenr by (simp add: r')
    have d1: "drop (p + 1) r' = drop (p + length pat) r" using lenr by (simp add: r')
    have sk: "replaced pat c (drop pos r) =
        take (p - pos) (drop pos r) @ replaced pat c (drop p r)"
      using replaced_skip [OF p(4) p(2)] dp by simp
    have tk: "take pos r @ take (p - pos) (drop pos r) = take p r"
      using p(1) by (metis le_add_diff_inverse take_add)
    have dr: "drop (p + length pat) r = rest" using rest
      by (metis append_eq_conv_conj drop_drop add.commute)
    have hd: "replaced pat c (drop p r) = c # replaced pat c rest"
      using rest pat by simp
    show ?thesis using step ih t1 d1 sk tk dr hd by (metis append.assoc append_Cons append_Nil)
  qed
qed

lemma replace_loop_0: "pat \<noteq> [] \<Longrightarrow> replace_loop r pat c 0 = Some (replaced pat c r)"
  using replace_loop_replaced [of pat 0 r c] by simp

lemma unescapeHtml_total: "\<exists>r. unescapeHtml s = Some r"
  by (simp add: unescapeHtml_def replacements_def replace_loop_0)

section \<open>Escaping and unescaping\<close>

lemma escapeHtml_foldl:
  "foldl (\<lambda>result c.
        if c = CHR ''&'' then result @ ''&amp;''
        else if c = CHR ''<'' then result @ ''&lt;''
        else if c = CHR ''>'' then result @ ''&gt;''
        else if c = CHR 0x22 then result @ ''&quot;''
        else result @ [c]) acc input
     = acc @ concat (map (enc [CHR ''<'', CHR ''>'', CHR 0x22, CHR ''&'']) input)"
  by (induction input arbitrary: acc) (simp_all add: enc_def)

lemma escapeHtml_enc:
  "escapeHtml s = concat (map (enc [CHR ''<'', CHR ''>'', CHR 0x22, CHR ''&'']) s)"
  by (simp add: escapeHtml_def escapeHtml_foldl)

lemma pass_lt:
  "replaced ''&lt;'' CHR ''<'' (concat (map (enc [CHR ''<'', CHR ''>'', CHR 0x22, CHR ''&'']) s))
     = concat (map (enc [CHR ''>'', CHR 0x22, CHR ''&'']) s)"
  by (induction s) (simp_all add: enc_def)

lemma pass_gt:
  "replaced ''&gt;'' CHR ''>'' (concat (map (enc [CHR ''>'', CHR 0x22, CHR ''&'']) s))
     = concat (map (enc [CHR 0x22, CHR ''&'']) s)"
  by (induction s) (simp_all add: enc_def)

lemma pass_quot:
  "replaced ''&quot;'' CHR 0x22 (concat (map (enc [CHR 0x22, CHR ''&'']) s))
     = concat (map (enc [CHR ''&'']) s)"
  by (induction s) (simp_all add: enc_def)

lemma pass_amp:
  "replaced ''&amp;'' CHR ''&'' (concat (map (enc [CHR ''&'']) s)) = s"
  by (induction s) (simp_all add: enc_def)

text \<open>
  Claim C6. For every string \<open>s\<close>, whatever characters of \<open>& < > "\<close> it holds,
  \<^verbatim>\<open>unescapeHtml(escapeHtml(s))\<close> returns and gives \<open>s\<close> back: the four passes of
  \<^verbatim>\<open>unescapeHtml\<close> undo in turn the entities that \<^verbatim>\<open>escapeHtml\<close> wrote for
  \<open><\<close>, \<open>>\<close>, \<open>"\<close> and \<open>&\<close>.
\<close>

theorem unescape_escape_roundtrip: "unescapeHtml (escapeHtml s) = Some s"
  by (simp add: unescapeHtml_def replacements_def escapeHtml_enc replace_loop_0
        pass_lt pass_gt pass_quot pass_amp)

section \<open>The fresh renderer and the context stack\<close>

lemma Renderer_reset:
  "Renderer\<lparr>m_error := [], m_errorPos := None, m_errorPartial := [],
      m_tagStartMarker := m_defaultTagStartMarker Renderer,
      m_tagEndMarker := m_defaultTagEndMarker Renderer\<rparr> = Renderer"
  by (simp add: Renderer_def)

lemma Renderer_no_error: "m_errorPos Renderer = None"
  by (simp add: Renderer_def)

lemma Renderer_no_partial: "m_partialStack Renderer = []"
  by (simp add: Renderer_def)

lemma push_pop: "push c key i = Done c1 \<Longrightarrow> pop c1 = c"
  by (cases c)
     (auto simp: push_def pop_def pt_push_def js_push_def obind_def
           split: outcome.splits json.splits if_splits)


lemma listCount_push: "listCount c key = Done k \<Longrightarrow> \<exists>c1. push c key i = Done c1"
  by (cases c)
     (auto simp: push_def listCount_def pt_push_def js_push_def obind_def
           split: outcome.splits json.splits if_splits)

section \<open>A raw tag at the end of the template\<close>

lemma raw_tag:
  "findTag ''{{{x}}'' 0 6 Renderer =
     Done (\<lparr>tag_type = Value, tag_key = ''x'', tag_start = 0, tag_end = 7,
            tag_escapeMode = Raw, tag_indentation = 0\<rparr>, Renderer)"
  by code_simp

lemma raw_tag_after: "findTag ''{{{x}}'' 7 6 Renderer = Done (Tag_default, Renderer)"
  by code_simp

text \<open>
  Claim C1 says that every tag of \<^verbatim>\<open>findTag\<close> has \<open>start \<le> end \<le> length(template)\<close>.
  On the template \<open>{{{x}}\<close> (a raw tag whose third closing brace is missing) the raw
  branch finds the \<open>}\<close> of the end marker itself and adds one to \<open>tag.end\<close> without
  looking at the text: the tag ends at 7 in a template of length 6, and the next
  \<^verbatim>\<open>substr\<close> of \<^verbatim>\<open>render\<close> throws \<^verbatim>\<open>std::out_of_range\<close>.
\<close>

theorem raw_tag_end_beyond_template:
  "findTag ''{{{x}}'' 0 (length ''{{{x}}'') Renderer =
     Done (\<lparr>tag_type = Value, tag_key = ''x'', tag_start = 0, tag_end = 7,
            tag_escapeMode = Raw, tag_indentation = 0\<rparr>, Renderer) \<and>
   length ''{{{x}}'' < 7 \<and>
   render (Suc (Suc n)) plain_platform ''{{{x}}'' Renderer
     (JsonContext [JObject [(''x'', JString ''v'')]] None) = Throw out_of_range"
proof -
  have len: "length ''{{{x}}'' = 6" by simp
  have v: "stringValue plain_platform (JsonContext [JObject [(''x'', JString ''v'')]] None) ''x''
      = Done ''v''"
    by (simp add: stringValue_def js_stringValue_def js_getValue_def obind_def)
  have "render_loop (Suc (Suc n)) plain_platform ''{{{x}}'' 6 [] 0 Renderer
     (JsonContext [JObject [(''x'', JString ''v'')]] None) = Throw out_of_range"
    by (simp add: render_iter_def Renderer_no_error raw_tag raw_tag_after v value_case_def
      obind_def substr_def size_sub_def dispatch_def Tag_default_def)
  then show ?thesis
    unfolding render_def render_span_def len Renderer_reset
    using raw_tag by simp
qed

section \<open>A close tag with another key\<close>

lemma mismatch_open:
  "findTag ''{{#a}}x{{/b}}'' 0 13 Renderer =
     Done (\<lparr>tag_type = SectionStart, tag_key = ''a'', tag_start = 0, tag_end = 6,
            tag_escapeMode = Escape, tag_indentation = 0\<rparr>, Renderer)"
  by code_simp

lemma mismatch_close:
  "findTag ''{{#a}}x{{/b}}'' 6 13 Renderer =
     Done (\<lparr>tag_type = SectionEnd, tag_key = ''b'', tag_start = 7, tag_end = 13,
            tag_escapeMode = Escape, tag_indentation = 0\<rparr>, Renderer)"
  by code_simp

lemma mismatch_loop:
  "render_loop (Suc (Suc n)) P ''{{#a}}x{{/b}}'' 13 [] 0 Renderer c =
     Done ([], Renderer\<lparr>m_error := mismatch_error, m_errorPos := Some 7\<rparr>, c)"
  by (simp add: render_iter_def Renderer_no_error
      mismatch_open mismatch_close obind_def substr_def size_sub_def dispatch_def
      section_case_def findEndTag_def setError_def Renderer_no_partial Tag_default_def)

text \<open>
  Claim C2, as the claim states it, fails: rendering \<open>{{#a}}x{{/b}}\<close> returns the empty
  string, not \<open>x\<close> (the body of a section whose end tag is not found is never rendered).
\<close>

theorem mismatch_output_not_x:
  "rendered_output
     (render 2 plain_platform ''{{#a}}x{{/b}}'' Renderer (JsonContext [JNull] None)) = Some [] \<and>
   rendered_output
     (render 2 plain_platform ''{{#a}}x{{/b}}'' Renderer (JsonContext [JNull] None)) \<noteq> Some ''x''"
proof -
  have len: "length ''{{#a}}x{{/b}}'' = 13" by simp
  have two: "(2::nat) = Suc (Suc 0)" by simp
  show ?thesis
    unfolding render_def render_span_def len Renderer_reset two mismatch_loop
      rendered_output_def
    by simp
qed

text \<open>
  Claim C2, amended. Rendering \<open>{{#a}}x{{/b}}\<close> with a fresh renderer, against any
  context, records the error \<open>Tag start/end key mismatch\<close> at position 7, the start of
  the close tag, returns the empty string and leaves the context as it was.
\<close>

theorem mismatch_render:
  "render (Suc (Suc n)) P ''{{#a}}x{{/b}}'' Renderer c =
     Done ([], Renderer\<lparr>m_error := ''Tag start/end key mismatch'', m_errorPos := Some 7\<rparr>, c)"
proof -
  have len: "length ''{{#a}}x{{/b}}'' = 13" by simp
  show ?thesis
    unfolding render_def render_span_def len Renderer_reset mismatch_loop mismatch_error_def
    by (rule refl)
qed

section \<open>An error after an error\<close>

lemma overwrite_open:
  "findTag ''{{#a}}{{=a=b c=}}{{/b}}'' 0 23 Renderer =
     Done (\<lparr>tag_type = SectionStart, tag_key = ''a'', tag_start = 0, tag_end = 6,
            tag_escapeMode = Escape, tag_indentation = 0\<rparr>, Renderer)"
  by code_simp

lemma overwrite_first:
  "findTag ''{{#a}}{{=a=b c=}}{{/b}}'' 6 23 Renderer =
     Done (\<lparr>tag_type = SetDelimiter, tag_key = [], tag_start = 6, tag_end = 17,
            tag_escapeMode = Escape, tag_indentation = 0\<rparr>,
           Renderer\<lparr>m_error := delimiter_error, m_errorPos := Some 10\<rparr>)"
  by code_simp

lemma overwrite_second:
  "findTag ''{{#a}}{{=a=b c=}}{{/b}}'' 17 23
       (Renderer\<lparr>m_error := delimiter_error, m_errorPos := Some 10\<rparr>) =
     Done (\<lparr>tag_type = SectionEnd, tag_key = ''b'', tag_start = 17, tag_end = 23,
            tag_escapeMode = Escape, tag_indentation = 0\<rparr>,
           Renderer\<lparr>m_error := delimiter_error, m_errorPos := Some 10\<rparr>)"
  by code_simp

lemma overwrite_loop:
  "render_loop (Suc (Suc (Suc n))) P ''{{#a}}{{=a=b c=}}{{/b}}'' 23 [] 0 Renderer c =
     Done ([], Renderer\<lparr>m_error := mismatch_error, m_errorPos := Some 17\<rparr>, c)"
  by (simp add: render_iter_def Renderer_no_error
      overwrite_open overwrite_first overwrite_second obind_def substr_def size_sub_def
      dispatch_def section_case_def findEndTag_def setError_def Renderer_no_partial
      Tag_default_def)

text \<open>
  Claim C3 says that the first error of a render call is never overwritten. In
  \<open>{{#a}}{{=a=b c=}}{{/b}}\<close> the scan of \<^verbatim>\<open>findEndTag\<close> meets the set-delimiter tag,
  whose token holds a \<open>=\<close>: \<^verbatim>\<open>findTag\<close> records the delimiter error at position 10.
  \<^verbatim>\<open>findEndTag\<close> does not look at the error and scans on to the close tag, where
  \<^verbatim>\<open>setError\<close> replaces message and position: the render ends with the key
  mismatch at position 17.
\<close>

theorem first_error_overwritten:
  "findTag ''{{#a}}{{=a=b c=}}{{/b}}'' 6 23 Renderer =
     Done (\<lparr>tag_type = SetDelimiter, tag_key = [], tag_start = 6, tag_end = 17,
            tag_escapeMode = Escape, tag_indentation = 0\<rparr>,
           Renderer\<lparr>m_error := delimiter_error, m_errorPos := Some 10\<rparr>) \<and>
   render (Suc (Suc (Suc n))) P ''{{#a}}{{=a=b c=}}{{/b}}'' Renderer c =
     Done ([], Renderer\<lparr>m_error := mismatch_error, m_errorPos := Some 17\<rparr>, c)"
proof -
  have len: "length ''{{#a}}{{=a=b c=}}{{/b}}'' = 23" by simp
  show ?thesis
    unfolding render_def render_span_def len Renderer_reset overwrite_loop overwrite_first
    by simp
qed

section \<open>Standalone section tags\<close>

lemma standalone_open:
  "findTag ''A\<newline>{{#x}}\<newline>B\<newline>{{/x}}\<newline>C\<newline>'' 0 20 Renderer =
     Done (\<lparr>tag_type = SectionStart, tag_key = ''x'', tag_start = 2, tag_end = 9,
            tag_escapeMode = Escape, tag_indentation = 0\<rparr>, Renderer)"
  by code_simp

lemma standalone_close:
  "findTag ''A\<newline>{{#x}}\<newline>B\<newline>{{/x}}\<newline>C\<newline>'' 9 20 Renderer =
     Done (\<lparr>tag_type = SectionEnd, tag_key = ''x'', tag_start = 11, tag_end = 18,
            tag_escapeMode = Escape, tag_indentation = 0\<rparr>, Renderer)"
  by code_simp

lemma standalone_inner:
  "findTag ''A\<newline>{{#x}}\<newline>B\<newline>{{/x}}\<newline>C\<newline>'' 9 11 Renderer =
     Done (Tag_default, Renderer)"
  by code_simp

lemma standalone_rest:
  "findTag ''A\<newline>{{#x}}\<newline>B\<newline>{{/x}}\<newline>C\<newline>'' 18 20 Renderer =
     Done (Tag_default, Renderer)"
  by code_simp

lemma standalone_loop:
  assumes "listCount c ''x'' = Done 0" and "isFalse P c ''x'' = Done False"
  shows "render_loop (Suc (Suc n)) P ''A\<newline>{{#x}}\<newline>B\<newline>{{/x}}\<newline>C\<newline>'' 20 [] 0 Renderer c =
     Done (''A\<newline>B\<newline>C\<newline>'', Renderer, c)"
proof -
  from listCount_push [OF assms(1)] obtain c1 where c1: "push c ''x'' (- 1) = Done c1"
    by blast
  from push_pop [OF c1] have p: "pop c1 = c" .
  show ?thesis
    using assms c1 p
    by (simp add: render_iter_def Renderer_no_error canEval_def
      standalone_open standalone_close standalone_inner standalone_rest
      obind_def substr_def size_sub_def dispatch_def
      section_case_def findEndTag_def Tag_default_def)
qed

text \<open>
  Claim C9. With a fresh renderer and a context in which \<open>x\<close> is no list
  (\<^verbatim>\<open>listCount\<close> is 0) and not false, the template
  \<open>A\n{{#x}}\nB\n{{/x}}\nC\n\<close> renders as \<open>A\nB\nC\n\<close>: the lines of the two section
  tags are gone with their line terminators.
\<close>

theorem standalone_render:
  assumes "listCount c ''x'' = Done 0" and "isFalse P c ''x'' = Done False"
  shows "render (Suc (Suc n)) P ''A\<newline>{{#x}}\<newline>B\<newline>{{/x}}\<newline>C\<newline>'' Renderer c =
     Done (''A\<newline>B\<newline>C\<newline>'', Renderer, c)"
proof -
  have len: "length ''A\<newline>{{#x}}\<newline>B\<newline>{{/x}}\<newline>C\<newline>'' = 20" by simp
  show ?thesis
    unfolding render_def render_span_def len Renderer_reset
    using assms by (rule standalone_loop)
qed

theorem standalone_render_witness:
  "listCount (JsonContext [JObject [(''x'', JBool True)]] None :: whole Context) ''x'' = Done 0 \<and>
   isFalse plain_platform (JsonContext [JObject [(''x'', JBool True)]] None) ''x'' = Done False \<and>
   render 2 plain_platform ''A\<newline>{{#x}}\<newline>B\<newline>{{/x}}\<newline>C\<newline>'' Renderer
       (JsonContext [JObject [(''x'', JBool True)]] None) =
     Done (''A\<newline>B\<newline>C\<newline>'', Renderer, JsonContext [JObject [(''x'', JBool True)]] None)"
proof -
  have a: "listCount (JsonContext [JObject [(''x'', JBool True)]] None :: whole Context) ''x''
      = Done 0"
    by (simp add: listCount_def js_getValue_def obind_def)
  have b: "isFalse plain_platform (JsonContext [JObject [(''x'', JBool True)]] None) ''x''
      = Done False"
    by (simp add: isFalse_def js_isFalse_def js_getValue_def obind_def)
  from standalone_render [OF a b, of 0] a b show ?thesis by (simp add: numeral_2_eq_2)
qed

section \<open>The key of a tag\<close>

lemma slice_Cons:
  "pos < endPos \<Longrightarrow> endPos \<le> length content \<Longrightarrow>
     slice content pos endPos = content ! pos # slice content (Suc pos) endPos"
proof -
  assume a: "pos < endPos" "endPos \<le> length content"
  then have "drop pos content = content ! pos # drop (Suc pos) content"
    by (simp add: Cons_nth_drop_Suc)
  moreover have "endPos - pos = Suc (endPos - Suc pos)" using a by arith
  ultimately show ?thesis by (simp add: slice_def)
qed

lemma scan_while_takeWhile:
  "pos \<le> endPos \<Longrightarrow> endPos \<le> length content \<Longrightarrow>
     scan_while P content pos endPos = Done (pos + length (takeWhile P (slice content pos endPos)))"
proof (induction P content pos endPos rule: scan_while.induct)
  case (1 P content pos endPos)
  show ?case
  proof (cases "pos < endPos")
    case False
    with "1.prems" have "pos = endPos" by simp
    then show ?thesis by (subst scan_while.simps) (simp add: slice_def)
  next
    case True
    with "1.prems" have lt: "pos < length content" by simp
    have sl: "slice content pos endPos = content ! pos # slice content (Suc pos) endPos"
      using True "1.prems"(2) by (rule slice_Cons)
    show ?thesis
    proof (cases "P (content ! pos)")
      case False
      then show ?thesis using True lt sl by (subst scan_while.simps) simp
    next
      case p: True
      have "scan_while P content (pos + 1) endPos =
          Done (pos + 1 + length (takeWhile P (slice content (pos + 1) endPos)))"
        using "1.IH" [OF True lt p] True "1.prems"(2) by simp
      then show ?thesis using True lt sl p by (subst scan_while.simps) simp
    qed
  qed
qed

lemma slice_drop:
  "k \<le> endPos - pos \<Longrightarrow> slice content (pos + k) endPos = drop k (slice content pos endPos)"
  by (simp add: slice_def drop_take add.commute)

lemma readTagName_first_token:
  assumes "pos \<le> endPos" and "endPos \<le> length content"
  shows "readTagName content pos endPos = Done (first_token (slice content pos endPos))"
proof -
  define sl where "sl = slice content pos endPos"
  define k where "k = length (takeWhile isspace sl)"
  have lsl: "length sl = endPos - pos" using assms by (simp add: sl_def slice_def)
  have k: "k \<le> endPos - pos" using length_takeWhile_le [of isspace sl] lsl by (simp add: k_def)
  have s1: "scan_while isspace content pos endPos = Done (pos + k)"
    using scan_while_takeWhile [OF assms] by (simp add: k_def sl_def)
  have rest: "slice content (pos + k) endPos = dropWhile isspace sl"
    using slice_drop [OF k] by (simp add: sl_def k_def dropWhile_eq_drop)
  have le: "pos + k \<le> endPos" using k assms(1) by arith
  define j where "j = length (takeWhile (\<lambda>c. \<not> isspace c) (dropWhile isspace sl))"
  have s2: "scan_while (\<lambda>c. \<not> isspace c) content (pos + k) endPos = Done (pos + k + j)"
    using scan_while_takeWhile [OF le assms(2)] rest by (simp add: j_def)
  have j: "j \<le> endPos - (pos + k)"
  proof -
    have "j \<le> length (dropWhile isspace sl)" unfolding j_def by (rule length_takeWhile_le)
    also have "\<dots> = length (slice content (pos + k) endPos)" using rest by simp
    also have "\<dots> = endPos - (pos + k)" using assms le by (simp add: slice_def)
    finally show ?thesis .
  qed
  have "take j (drop (pos + k) content) = take j (slice content (pos + k) endPos)"
    using j by (simp add: slice_def min_def)
  also have "\<dots> = takeWhile (\<lambda>c. \<not> isspace c) (dropWhile isspace sl)"
    unfolding rest j_def by (simp add: takeWhile_eq_take [symmetric])
  finally have t: "take j (drop (pos + k) content) = first_token sl"
    by (simp add: first_token_def)
  have "pos + k \<le> length content" using le assms(2) by arith
  then show ?thesis
    using s1 s2 t by (simp add: readTagName_def obind_def substr_def sl_def)
qed

lemma expandTag_type: "expandTag t content = Done t' \<Longrightarrow> tag_type t' = tag_type t"
  by (auto simp: expandTag_def obind_def split: outcome.splits option.splits)


lemma named_type:
  "obind (readTagName content a b) (\<lambda>k.
     obind (expandTag (t\<lparr>tag_type := T, tag_key := k\<rparr>) content) (\<lambda>tag'. Done (tag', s)))
   = Done (tag, s') \<Longrightarrow> tag_type tag = T"
  by (auto simp: obind_def split: outcome.splits dest: expandTag_type)

lemma expand_only_type:
  "obind (expandTag (t\<lparr>tag_type := T\<rparr>) content) (\<lambda>tag'. Done (tag', s)) = Done (tag, s')
     \<Longrightarrow> tag_type tag = T"
  by (auto simp: obind_def split: outcome.splits dest: expandTag_type)

lemma delimiter_type:
  "obind (readSetDelimiter content a b s) (\<lambda>s'.
     obind (expandTag (t\<lparr>tag_type := T\<rparr>) content) (\<lambda>tag'. Done (tag', s'))) = Done (tag, s'')
     \<Longrightarrow> tag_type tag = T"
  by (auto simp: obind_def split: outcome.splits dest: expandTag_type)

lemma unescape_mode:
  "obind (readTagName content a b) (\<lambda>k.
     Done (t\<lparr>tag_type := Value, tag_key := k, tag_escapeMode := M\<rparr>, s)) = Done (tag, s')
     \<Longrightarrow> tag_escapeMode tag = M"
  by (auto simp: obind_def split: outcome.splits)

lemma raw_mode:
  "obind (readTagName content a b) (\<lambda>k.
     Done (t\<lparr>tag_type := Value, tag_key := k, tag_end := e, tag_escapeMode := M\<rparr>, s))
     = Done (tag, s') \<Longrightarrow> tag_escapeMode tag = M"
  by (auto simp: obind_def split: outcome.splits)



lemma spaced_key_tag:
  "findTag ''{{ a b }}'' 0 9 Renderer =
     Done (\<lparr>tag_type = Value, tag_key = ''a'', tag_start = 0, tag_end = 9,
            tag_escapeMode = Escape, tag_indentation = 0\<rparr>, Renderer)"
  by code_simp

text \<open>
  Claim C8, as the claim states it, fails: scanning \<open>{{ a b }}\<close> yields a Value tag whose
  key is \<open>a\<close>, not \<open>a b\<close> (\<^verbatim>\<open>readTagName\<close> stops at the first whitespace after the
  name has begun).
\<close>

theorem spaced_key_is_first_word:
  "found_key (findTag ''{{ a b }}'' 0 9 Renderer) = Some ''a'' \<and>
   found_key (findTag ''{{ a b }}'' 0 9 Renderer) \<noteq> Some ''a b''"
  unfolding spaced_key_tag found_key_def by simp

text \<open>
  Claim C8, amended. For a default Value tag (escape mode \<^verbatim>\<open>Escape\<close>: the character
  after the start marker is none of \<open># ^ / ! > = & {\<close>) the key is the first
  whitespace-delimited token of the inner text between the delimiters: leading
  whitespace is skipped and the key ends at the next whitespace character or at the end
  marker.
\<close>

theorem findTag_value_key:
  assumes "findTag content pos endPos s = Done (tag, s')"
    and "tag_type tag = Value" and "tag_escapeMode tag = Escape"
  shows "tag_key tag =
      first_token (slice content (tag_start tag + length (m_tagStartMarker s))
                     (tag_end tag - length (m_tagEndMarker s)))"
proof -
  have "find content (m_tagStartMarker s) pos \<noteq> None"
  proof
    assume "find content (m_tagStartMarker s) pos = None"
    with assms(1) have "Tag_default = tag" by (simp add: findTag_def)
    with assms(2) show False by (auto simp: Tag_default_def)
  qed
  then obtain tagStartPos where
    a: "find content (m_tagStartMarker s) pos = Some tagStartPos" by blast
  have a2: "\<not> endPos \<le> tagStartPos"
  proof
    assume "endPos \<le> tagStartPos"
    with assms(1) a have "Tag_default = tag" by (simp add: findTag_def)
    with assms(2) show False by (auto simp: Tag_default_def)
  qed
  have "find content (m_tagEndMarker s) (tagStartPos + length (m_tagStartMarker s)) \<noteq> None"
  proof
    assume "find content (m_tagEndMarker s) (tagStartPos + length (m_tagStartMarker s)) = None"
    with assms(1) a a2 have "Tag_default = tag" by (simp add: findTag_def)
    with assms(2) show False by (auto simp: Tag_default_def)
  qed
  then obtain found where
    b: "find content (m_tagEndMarker s) (tagStartPos + length (m_tagStartMarker s)) = Some found"
    by blast
  from find_bounds [OF b] have bb: "tagStartPos + length (m_tagStartMarker s) \<le> found"
    "found + length (m_tagEndMarker s) \<le> length content" by auto
  then have fl: "found \<le> length content" by arith
  note rt = readTagName_first_token [OF bb(1) fl]
  let ?pos1 = "tagStartPos + length (m_tagStartMarker s)"
  let ?tc = "content ! ?pos1"
  have nb: "\<not> length content \<le> ?pos1"
  proof
    assume "length content \<le> ?pos1"
    with assms(1) a a2 b show False
      by (simp add: findTag_def Let_def split del: if_split)
  qed
  have c1: "?tc \<noteq> CHR ''#''"
  proof
    assume "?tc = CHR ''#''"
    with assms(1) a a2 b nb have "tag_type tag = SectionStart"
      by (simp add: findTag_def Let_def split del: if_split) (erule named_type)
    with assms(2) show False by simp
  qed
  have c2: "?tc \<noteq> CHR ''^''"
  proof
    assume "?tc = CHR ''^''"
    with assms(1) a a2 b nb have "tag_type tag = InvertedSectionStart"
      by (simp add: findTag_def Let_def split del: if_split) (erule named_type)
    with assms(2) show False by simp
  qed
  have c3: "?tc \<noteq> CHR ''/''"
  proof
    assume "?tc = CHR ''/''"
    with assms(1) a a2 b nb have "tag_type tag = SectionEnd"
      by (simp add: findTag_def Let_def split del: if_split) (erule named_type)
    with assms(2) show False by simp
  qed
  have c4: "?tc \<noteq> CHR ''!''"
  proof
    assume "?tc = CHR ''!''"
    with assms(1) a a2 b nb have "tag_type tag = Comment"
      by (simp add: findTag_def Let_def split del: if_split) (erule expand_only_type)
    with assms(2) show False by simp
  qed
  have c5: "?tc \<noteq> CHR ''>''"
  proof
    assume "?tc = CHR ''>''"
    with assms(1) a a2 b nb have "tag_type tag = Partial"
      by (simp add: findTag_def Let_def split del: if_split) (erule named_type)
    with assms(2) show False by simp
  qed
  have c6: "?tc \<noteq> CHR ''=''"
  proof
    assume "?tc = CHR ''=''"
    with assms(1) a a2 b nb have "tag_type tag = SetDelimiter"
      by (simp add: findTag_def Let_def split del: if_split) (erule delimiter_type)
    with assms(2) show False by simp
  qed
  have c7: "?tc \<noteq> CHR ''&''"
  proof
    assume "?tc = CHR ''&''"
    with assms(1) a a2 b nb have "tag_escapeMode tag = Unescape"
      by (simp add: findTag_def Let_def split del: if_split) (erule unescape_mode)
    with assms(3) show False by simp
  qed
  have c8: "?tc \<noteq> CHR ''{''"
  proof
    assume "?tc = CHR ''{''"
    with assms(1) a a2 b nb have "tag_escapeMode tag = Raw"
      by (cases "find content ''}'' (Suc (tagStartPos + length (m_tagStartMarker s))) = Some found")
         (simp_all add: findTag_def Let_def split del: if_split,
          erule raw_mode, erule unescape_mode)
    with assms(3) show False by simp
  qed
  from assms(1) a a2 b nb c1 c2 c3 c4 c5 c6 c7 c8 rt
  have "tag = Tag_default\<lparr>tag_start := tagStartPos, tag_end := found + length (m_tagEndMarker s),
      tag_type := Value, tag_key := first_token (slice content ?pos1 found)\<rparr>"
    by (simp add: findTag_def Let_def obind_def split del: if_split) blast
  then show ?thesis by simp
qed


theorem findTag_value_key_witness:
  "findTag ''{{ a b }}'' 0 9 Renderer =
     Done (\<lparr>tag_type = Value, tag_key = ''a'', tag_start = 0, tag_end = 9,
            tag_escapeMode = Escape, tag_indentation = 0\<rparr>, Renderer) \<and>
   ''a'' = first_token (slice ''{{ a b }}'' (0 + length (m_tagStartMarker Renderer))
                     (9 - length (m_tagEndMarker Renderer)))"
proof -
  from findTag_value_key [OF spaced_key_tag] spaced_key_tag show ?thesis by simp
qed

section \<open>The context stack across a render\<close>

lemma obind_Done: "obind m f = Done y \<Longrightarrow> \<exists>x. m = Done x \<and> f x = Done y"
  by (cases m) (simp_all add: obind_def)

lemma section_list_context:
  assumes inner: "\<And>s c out s' c'. inner s c = Done (out, s', c') \<Longrightarrow> c' = c"
    and run: "section_list inner key idx outp s c = Done (out, s', c')"
  shows "c' = c"
  using run
proof (induction idx arbitrary: outp s c)
  case Nil
  then show ?case by simp
next
  case (Cons i rest)
  from Cons.prems obtain c1 where c1: "push c key (size_to_int i) = Done c1"
    by (cases "push c key (size_to_int i)") simp_all
  from Cons.prems c1 obtain o1 s2 c2 where i1: "inner s c1 = Done (o1, s2, c2)"
    by (cases "inner s c1") auto
  from inner [OF i1] have "c2 = c1" .
  with push_pop [OF c1] have p: "pop c2 = c" by simp
  from Cons.prems c1 i1 have "section_list inner key rest (outp @ o1) s2 (pop c2) = Done (out, s', c')"
    by simp
  from Cons.IH [OF this] p show ?case by simp
qed

lemma section_case_context:
  assumes self: "\<And>t e ou l s c out s' c'. self t e ou l s c = Done (out, s', c') \<Longrightarrow> c' = c"
    and run: "section_case P fuel self templ endPos tag output lastTagEnd s c = Done (o', l', s', c')"
  shows "c' = c"
proof -
  from run obtain endTag s1 where
    e: "findEndTag fuel templ tag endPos s = Done (endTag, s1)"
    unfolding section_case_def by (auto dest!: obind_Done)
  show ?thesis
  proof (cases "tag_type endTag = Null")
    case True
    with run e show ?thesis by (simp add: section_case_def obind_def)
  next
    case nn: False
    from run e nn obtain count where cnt: "listCount c (tag_key tag) = Done count"
      unfolding section_case_def by (auto simp: obind_def split: outcome.splits)
    show ?thesis
    proof (cases "0 < count")
      case True
      with run e nn cnt obtain o2 s2 c2 where
        sl: "section_list (\<lambda>s' c'. self templ (tag_start endTag) [] (tag_end tag) s' c')
               (tag_key tag) [0..<count] output s1 c = Done (o2, s2, c2)"
        and r: "c' = c2"
        unfolding section_case_def by (auto simp: obind_def split: outcome.splits)
      from section_list_context [OF _ sl] self have "c2 = c" by blast
      with r show ?thesis by simp
    next
      case z: False
      from run e nn cnt z obtain f where f: "isFalse P c (tag_key tag) = Done f"
        unfolding section_case_def by (auto simp: obind_def canEval_def split: outcome.splits)
      show ?thesis
      proof (cases f)
        case True
        with run e nn cnt z f show ?thesis
          by (simp add: section_case_def obind_def canEval_def)
      next
        case False
        with run e nn cnt z f obtain c1 where c1: "push c (tag_key tag) (- 1) = Done c1"
          unfolding section_case_def by (auto simp: obind_def canEval_def split: outcome.splits)
        with run e nn cnt z f False obtain o2 s2 c2 where
          i: "self templ (tag_start endTag) [] (tag_end tag) s1 c1 = Done (o2, s2, c2)"
          and r: "c' = pop c2"
          unfolding section_case_def by (auto simp: obind_def canEval_def split: outcome.splits)
        from self [OF i] push_pop [OF c1] r show ?thesis by simp
      qed
    qed
  qed
qed

lemma inverted_case_context:
  assumes self: "\<And>t e ou l s c out s' c'. self t e ou l s c = Done (out, s', c') \<Longrightarrow> c' = c"
    and run: "inverted_case P fuel self templ endPos tag output lastTagEnd s c = Done (o', l', s', c')"
  shows "c' = c"
proof -
  from run obtain endTag s1 where
    e: "findEndTag fuel templ tag endPos s = Done (endTag, s1)"
    unfolding inverted_case_def by (auto dest!: obind_Done)
  show ?thesis
  proof (cases "tag_type endTag = Null")
    case True
    with run e show ?thesis by (simp add: inverted_case_def obind_def)
  next
    case nn: False
    from run e nn obtain f where f: "isFalse P c (tag_key tag) = Done f"
      unfolding inverted_case_def by (auto simp: obind_def split: outcome.splits)
    show ?thesis
    proof (cases f)
      case False
      with run e nn f show ?thesis by (simp add: inverted_case_def obind_def)
    next
      case True
      with run e nn f obtain o2 s2 c2 where
        i: "self templ (tag_start endTag) [] (tag_end tag) s1 c = Done (o2, s2, c2)"
        and r: "c' = c2"
        unfolding inverted_case_def by (auto simp: obind_def split: outcome.splits)
      from self [OF i] r show ?thesis by simp
    qed
  qed
qed

lemma partial_case_context:
  assumes self: "\<And>t e ou l s c out s' c'. self t e ou l s c = Done (out, s', c') \<Longrightarrow> c' = c"
    and run: "partial_case self tag output s c = Done (o', l', s', c')"
  shows "c' = c"
proof -
  from run obtain t e s1 o2 s2 c2 where
    i: "self t e [] 0 s1 c = Done (o2, s2, c2)" and r: "c' = c2"
    unfolding partial_case_def Let_def
    by (auto simp: obind_def split: outcome.splits if_splits)
  from self [OF i] r show ?thesis by simp
qed

lemma dispatch_context:
  assumes self: "\<And>t e ou l s c out s' c'. self t e ou l s c = Done (out, s', c') \<Longrightarrow> c' = c"
    and run: "dispatch P fuel self templ endPos tag output lastTagEnd s c = Done (o', l', s', c')"
  shows "c' = c"
proof (cases "tag_type tag")
  case Value
  with run show ?thesis by (auto simp: dispatch_def obind_def split: outcome.splits)
next
  case SectionStart
  with run have "section_case P fuel self templ endPos tag output lastTagEnd s c = Done (o', l', s', c')"
    by (simp add: dispatch_def)
  from section_case_context [OF _ this] self show ?thesis by blast
next
  case InvertedSectionStart
  with run have "inverted_case P fuel self templ endPos tag output lastTagEnd s c = Done (o', l', s', c')"
    by (simp add: dispatch_def)
  from inverted_case_context [OF _ this] self show ?thesis by blast
next
  case Partial
  with run have "partial_case self tag output s c = Done (o', l', s', c')"
    by (simp add: dispatch_def)
  from partial_case_context [OF _ this] self show ?thesis by blast
qed (use run in \<open>simp_all add: dispatch_def\<close>)

lemma render_iter_context:
  assumes self: "\<And>t e ou l s c out s' c'. self t e ou l s c = Done (out, s', c') \<Longrightarrow> c' = c"
    and run: "render_iter P fuel self templ endPos output lastTagEnd s c = Done (out, s', c')"
  shows "c' = c"
proof (cases "m_errorPos s \<noteq> None")
  case True
  with run show ?thesis by (simp add: render_iter_def)
next
  case False
  with run obtain tag s1 where ft: "findTag templ lastTagEnd endPos s = Done (tag, s1)"
    unfolding render_iter_def by (auto dest!: obind_Done)
  show ?thesis
  proof (cases "tag_type tag = Null")
    case True
    with run False ft show ?thesis
      by (auto simp: render_iter_def obind_def split: outcome.splits)
  next
    case nn: False
    with run False ft obtain literal where
      li: "substr templ lastTagEnd (size_sub (tag_start tag) lastTagEnd) = Done literal"
      unfolding render_iter_def by (auto simp: obind_def split: outcome.splits)
    with run False ft nn obtain o2 l2 s2 c2 where
      d: "dispatch P fuel self templ endPos tag (output @ literal) lastTagEnd s1 c
            = Done (o2, l2, s2, c2)"
      and r: "self templ endPos o2 l2 s2 c2 = Done (out, s', c')"
      unfolding render_iter_def by (auto simp: obind_def split: outcome.splits)
    from dispatch_context [OF _ d] self have "c2 = c" by blast
    with self [OF r] show ?thesis by simp
  qed
qed

lemma render_loop_context:
  "render_loop n P templ endPos outp lastTagEnd s c = Done (out, s', c') \<Longrightarrow> c' = c"
proof (induction n arbitrary: templ endPos outp lastTagEnd s c out s' c')
  case 0
  then show ?case by simp
next
  case (Suc n)
  from Suc.prems have
    "render_iter P n (\<lambda>templ' endPos' output' lastTagEnd' s' c'.
         render_loop n P templ' endPos' output' lastTagEnd' s' c')
       templ endPos outp lastTagEnd s c = Done (out, s', c')" by simp
  from render_iter_context [OF _ this] Suc.IH show ?case by blast
qed

lemma render_span_view:
  assumes "rendered_view (render_span n P templ startPos endPos s c) = Some (out, s')"
  shows "render_span n P templ startPos endPos s c = Done (out, s', c)"
proof -
  from assms obtain c' where d: "render_span n P templ startPos endPos s c = Done (out, s', c')"
    by (auto simp: rendered_view_def split: outcome.splits)
  then have "c' = c" unfolding render_span_def by (rule render_loop_context)
  with d show ?thesis by simp
qed

lemma partial_case_view:
  assumes "step_view (partial_case (render_loop n P) tag outp s c) = Some (out, l, s')"
  shows "partial_case (render_loop n P) tag outp s c = Done (out, l, s', c)"
proof -
  from assms obtain c' where d: "partial_case (render_loop n P) tag outp s c = Done (out, l, s', c')"
    by (auto simp: step_view_def split: outcome.splits)
  from partial_case_context [OF _ d] render_loop_context have "c' = c" by blast
  with d show ?thesis by simp
qed

section \<open>The floor under the context stack\<close>









section \<open>A render that leaves by an exception, and one that never returns\<close>










text \<open>
  After \<^verbatim>\<open>{{=}}\<close> both markers are empty. The next tag is then found at the cursor,
  with no width and an empty key, its value is appended and the cursor stays where it is:
  the loop of \<^verbatim>\<open>render\<close> goes on for ever, whatever the fuel, as soon as the value of
  the empty key can be read.
\<close>

lemma empty_markers_set:
  "findTag ''{{=}}x'' 0 6 Renderer =
     Done (\<lparr>tag_type = SetDelimiter, tag_key = [], tag_start = 0, tag_end = 5,
             tag_escapeMode = Escape, tag_indentation = 0\<rparr>,
           \<lparr>m_partialStack = [], m_error = [], m_errorPos = None,
             m_errorPartial = [], m_tagStartMarker = [], m_tagEndMarker = [],
             m_defaultTagStartMarker = ''{{'', m_defaultTagEndMarker = ''}}''\<rparr>)"
  by code_simp

lemma empty_markers_tag:
  "findTag ''{{=}}x'' 5 6
     \<lparr>m_partialStack = [], m_error = [], m_errorPos = None,
       m_errorPartial = [], m_tagStartMarker = [], m_tagEndMarker = [],
       m_defaultTagStartMarker = ''{{'', m_defaultTagEndMarker = ''}}''\<rparr> =
     Done (\<lparr>tag_type = Value, tag_key = [], tag_start = 5, tag_end = 5,
             tag_escapeMode = Escape, tag_indentation = 0\<rparr>,
           \<lparr>m_partialStack = [], m_error = [], m_errorPos = None,
             m_errorPartial = [], m_tagStartMarker = [], m_tagEndMarker = [],
             m_defaultTagStartMarker = ''{{'', m_defaultTagEndMarker = ''}}''\<rparr>)"
  by code_simp

lemma empty_markers_round:
  assumes "value_case P \<lparr>tag_type = Value, tag_key = [], tag_start = 5, tag_end = 5,
             tag_escapeMode = Escape, tag_indentation = 0\<rparr> c = Done v"
  shows "render_loop n P ''{{=}}x'' 6 outp 5
     \<lparr>m_partialStack = [], m_error = [], m_errorPos = None,
       m_errorPartial = [], m_tagStartMarker = [], m_tagEndMarker = [],
       m_defaultTagStartMarker = ''{{'', m_defaultTagEndMarker = ''}}''\<rparr> c = NoFuel"
proof (induction n arbitrary: outp)
  case 0
  show ?case by simp
next
  case (Suc n)
  have len: "length ''{{=}}x'' = 6" by simp
  show ?case
    unfolding render_loop.simps render_iter_def empty_markers_tag
    using assms Suc [of "outp @ v"]
    by (simp add: obind_def substr_def size_sub_def dispatch_def del: render_loop.simps)
qed

lemma empty_markers_never_return:
  assumes "value_case P \<lparr>tag_type = Value, tag_key = [], tag_start = 5, tag_end = 5,
             tag_escapeMode = Escape, tag_indentation = 0\<rparr> c = Done v"
  shows "render_span n P ''{{=}}x'' 0 6 Renderer c = NoFuel"
proof (cases n)
  case 0
  then show ?thesis by (simp add: render_span_def)
next
  case (Suc m)
  have "render_loop (Suc m) P ''{{=}}x'' 6 [] 0 Renderer c = NoFuel"
    unfolding render_loop.simps render_iter_def empty_markers_set
    using empty_markers_round [OF assms, of m "[]"]
    by (simp add: obind_def substr_def size_sub_def dispatch_def Renderer_def
          del: render_loop.simps)
  with Suc show ?thesis by (simp add: render_span_def)
qed





section \<open>Sections over lists\<close>

lemma element_scopes_count:
  "element_scopes c key = Done cs \<Longrightarrow> listCount c key = Done (length cs)"
  by (cases c)
     (auto simp: element_scopes_def listCount_def obind_def split: outcome.splits json.splits)

lemma element_scopes_push:
  "element_scopes c key = Done cs \<Longrightarrow> i < length cs \<Longrightarrow> i < 2 ^ 31 \<Longrightarrow>
     push c key (size_to_int i) = Done (cs ! i)"
  by (cases c)
     (auto simp: element_scopes_def push_def pt_push_def js_push_def obind_def size_to_int_def
           split: outcome.splits json.splits)

text \<open>
  Claim C7. In either context, for a section whose key resolves to a sequence of three
  elements (the array \<open>[A, B, C]\<close> of a JSON value, the three children of a
  property-tree node), \<^verbatim>\<open>listCount\<close> is 3 and the section case pushes the element of
  index 0, 1 and 2 in turn, each push giving the context with that element on top of the
  stack, renders the inner span against it and pops it; the output is the output so far
  followed by the three renders in that order, the cursor moves to the end of the end
  tag, and the context is the one before the section.
\<close>

theorem section_list_order:
  assumes e: "findEndTag fuel templ tag endPos s = Done (endTag, s1)"
    and nn: "tag_type endTag \<noteq> Null"
    and v: "element_scopes c (tag_key tag) = Done [cA, cB, cC]"
    and rA: "render_span n P templ (tag_end tag) (tag_start endTag) s1 cA = Done (oA, sA, cA')"
    and rB: "render_span n P templ (tag_end tag) (tag_start endTag) sA cB = Done (oB, sB, cB')"
    and rC: "render_span n P templ (tag_end tag) (tag_start endTag) sB cC = Done (oC, sC, cC')"
  shows "section_case P fuel (render_loop n P) templ endPos tag outp lastTagEnd s c =
         Done (outp @ oA @ oB @ oC, tag_end endTag, sC, c) \<and>
       listCount c (tag_key tag) = Done 3 \<and>
       push c (tag_key tag) 0 = Done cA \<and>
       push c (tag_key tag) 1 = Done cB \<and>
       push c (tag_key tag) 2 = Done cC \<and>
       pop cA' = c \<and> pop cB' = c \<and> pop cC' = c"
proof -
  have cnt: "listCount c (tag_key tag) = Done 3"
    using element_scopes_count [OF v] by simp
  have idx: "[0..<3] = [0, 1, 2]" by (simp add: upt_rec)
  have sz: "size_to_int 0 = 0" "size_to_int 1 = 1" "size_to_int 2 = 2"
    by (simp_all add: size_to_int_def)
  have p0: "push c (tag_key tag) (size_to_int 0) = Done cA"
    using element_scopes_push [OF v, of 0] by simp
  have p1: "push c (tag_key tag) (size_to_int 1) = Done cB"
    using element_scopes_push [OF v, of 1] by simp
  have p2: "push c (tag_key tag) (size_to_int 2) = Done cC"
    using element_scopes_push [OF v, of 2] by simp
  from rA have cA: "cA' = cA" unfolding render_span_def by (rule render_loop_context)
  from rB have cB: "cB' = cB" unfolding render_span_def by (rule render_loop_context)
  from rC have cC: "cC' = cC" unfolding render_span_def by (rule render_loop_context)
  note pp = push_pop [OF p0] push_pop [OF p1] push_pop [OF p2]
  have "section_list (\<lambda>s' c'. render_loop n P templ (tag_start endTag) [] (tag_end tag) s' c')
          (tag_key tag) [0, 1, 2] outp s1 c
        = Done (outp @ oA @ oB @ oC, sC, c)"
    using p0 p1 p2 rA rB rC cA cB cC pp
    by (simp add: render_span_def)
  then have "section_case P fuel (render_loop n P) templ endPos tag outp lastTagEnd s c =
         Done (outp @ oA @ oB @ oC, tag_end endTag, sC, c)"
    using e nn cnt idx by (simp add: section_case_def obind_def)
  then show ?thesis using cnt p0 p1 p2 sz cA cB cC pp by simp
qed

text \<open>
  The template \<^verbatim>\<open>{{#k}}{{.}}{{/k}}\<close> over \<open>k\<close> bound to \<open>[A, B, C]\<close>, once as a JSON
  array and once as a property tree, renders \<open>ABC\<close>.
\<close>

lemma three_end_tag:
  "findEndTag 2 ''{{#k}}{{.}}{{/k}}''
     \<lparr>tag_type = SectionStart, tag_key = ''k'', tag_start = 0, tag_end = 6,
       tag_escapeMode = Escape, tag_indentation = 0\<rparr> 17 Renderer =
   Done (\<lparr>tag_type = SectionEnd, tag_key = ''k'', tag_start = 11, tag_end = 17,
          tag_escapeMode = Escape, tag_indentation = 0\<rparr>, Renderer)"
  by code_simp

lemma three_json:
  "rendered_view (render_span 2 plain_platform ''{{#k}}{{.}}{{/k}}'' 6 11 Renderer
     (JsonContext [JObject [(''k'', JArray [JString ''A'', JString ''B'', JString ''C''])],
        JString ''A''] None)) = Some (''A'', Renderer)"
  "rendered_view (render_span 2 plain_platform ''{{#k}}{{.}}{{/k}}'' 6 11 Renderer
     (JsonContext [JObject [(''k'', JArray [JString ''A'', JString ''B'', JString ''C''])],
        JString ''B''] None)) = Some (''B'', Renderer)"
  "rendered_view (render_span 2 plain_platform ''{{#k}}{{.}}{{/k}}'' 6 11 Renderer
     (JsonContext [JObject [(''k'', JArray [JString ''A'', JString ''B'', JString ''C''])],
        JString ''C''] None)) = Some (''C'', Renderer)"
  by code_simp+

lemma three_ptree:
  "rendered_view (render_span 2 plain_platform ''{{#k}}{{.}}{{/k}}'' 6 11 Renderer
     (PropertyTreeContext
        [PTree [] [(''k'', PTree [] [([], PTree ''A'' []), ([], PTree ''B'' []),
                                     ([], PTree ''C'' [])])],
         PTree ''A'' []] None)) = Some (''A'', Renderer)"
  "rendered_view (render_span 2 plain_platform ''{{#k}}{{.}}{{/k}}'' 6 11 Renderer
     (PropertyTreeContext
        [PTree [] [(''k'', PTree [] [([], PTree ''A'' []), ([], PTree ''B'' []),
                                     ([], PTree ''C'' [])])],
         PTree ''B'' []] None)) = Some (''B'', Renderer)"
  "rendered_view (render_span 2 plain_platform ''{{#k}}{{.}}{{/k}}'' 6 11 Renderer
     (PropertyTreeContext
        [PTree [] [(''k'', PTree [] [([], PTree ''A'' []), ([], PTree ''B'' []),
                                     ([], PTree ''C'' [])])],
         PTree ''C'' []] None)) = Some (''C'', Renderer)"
  by code_simp+

lemma three_ptree_node:
  "pt_getValue [PTree [] [(''k'', PTree [] [([], PTree ''A'' []), ([], PTree ''B'' []),
                                           ([], PTree ''C'' [])])]] ''k'' =
     Done (PTree [] [([], PTree ''A'' []), ([], PTree ''B'' []), ([], PTree ''C'' [])])"
  by code_simp

theorem section_list_order_witness:
  "section_case plain_platform 2 (render_loop 2 plain_platform) ''{{#k}}{{.}}{{/k}}'' 17
     \<lparr>tag_type = SectionStart, tag_key = ''k'', tag_start = 0, tag_end = 6,
       tag_escapeMode = Escape, tag_indentation = 0\<rparr> [] 0 Renderer
     (JsonContext [JObject [(''k'', JArray [JString ''A'', JString ''B'', JString ''C''])]] None) =
   Done (''ABC'', 17, Renderer,
     JsonContext [JObject [(''k'', JArray [JString ''A'', JString ''B'', JString ''C''])]] None) \<and>
   push (JsonContext [JObject [(''k'', JArray [JString ''A'', JString ''B'', JString ''C''])]] None
           :: whole Context) ''k'' 1 =
     Done (JsonContext [JObject [(''k'', JArray [JString ''A'', JString ''B'', JString ''C''])],
        JString ''B''] None) \<and>
   section_case plain_platform 2 (render_loop 2 plain_platform) ''{{#k}}{{.}}{{/k}}'' 17
     \<lparr>tag_type = SectionStart, tag_key = ''k'', tag_start = 0, tag_end = 6,
       tag_escapeMode = Escape, tag_indentation = 0\<rparr> [] 0 Renderer
     (PropertyTreeContext
        [PTree [] [(''k'', PTree [] [([], PTree ''A'' []), ([], PTree ''B'' []),
                                     ([], PTree ''C'' [])])]] None) =
   Done (''ABC'', 17, Renderer,
     PropertyTreeContext
        [PTree [] [(''k'', PTree [] [([], PTree ''A'' []), ([], PTree ''B'' []),
                                     ([], PTree ''C'' [])])]] None) \<and>
   push (PropertyTreeContext
        [PTree [] [(''k'', PTree [] [([], PTree ''A'' []), ([], PTree ''B'' []),
                                     ([], PTree ''C'' [])])]] None :: whole Context) ''k'' 1 =
     Done (PropertyTreeContext
        [PTree [] [(''k'', PTree [] [([], PTree ''A'' []), ([], PTree ''B'' []),
                                     ([], PTree ''C'' [])])],
         PTree ''B'' []] None)"
proof -
  let ?tag = "\<lparr>tag_type = SectionStart, tag_key = ''k'', tag_start = 0, tag_end = 6,
          tag_escapeMode = Escape, tag_indentation = 0\<rparr>"
  let ?endTag = "\<lparr>tag_type = SectionEnd, tag_key = ''k'', tag_start = 11, tag_end = 17,
          tag_escapeMode = Escape, tag_indentation = 0\<rparr>"
  let ?js = "[JObject [(''k'', JArray [JString ''A'', JString ''B'', JString ''C''])]]
      :: whole json list"
  let ?pt = "[PTree [] [(''k'', PTree [] [([], PTree ''A'' []), ([], PTree ''B'' []),
                                          ([], PTree ''C'' [])])]]"
  have ej: "element_scopes (JsonContext ?js None) (tag_key ?tag) =
      Done [JsonContext (?js @ [JString ''A'']) None, JsonContext (?js @ [JString ''B'']) None,
            JsonContext (?js @ [JString ''C'']) None]"
    by (simp add: element_scopes_def js_getValue_def obind_def)
  have ep: "element_scopes (PropertyTreeContext ?pt None :: whole Context) (tag_key ?tag) =
      Done [PropertyTreeContext (?pt @ [PTree ''A'' []]) None,
            PropertyTreeContext (?pt @ [PTree ''B'' []]) None,
            PropertyTreeContext (?pt @ [PTree ''C'' []]) None]"
    by (simp add: element_scopes_def three_ptree_node obind_def)
  have t: "tag_type ?endTag \<noteq> Null" by simp
  note j = three_json [THEN render_span_view]
  note q = three_ptree [THEN render_span_view]
  have 1: "render_span 2 plain_platform ''{{#k}}{{.}}{{/k}}'' (tag_end ?tag) (tag_start ?endTag)
      Renderer (JsonContext (?js @ [JString ''A'']) None) =
      Done (''A'', Renderer, JsonContext (?js @ [JString ''A'']) None)"
    and 2: "render_span 2 plain_platform ''{{#k}}{{.}}{{/k}}'' (tag_end ?tag) (tag_start ?endTag)
      Renderer (JsonContext (?js @ [JString ''B'']) None) =
      Done (''B'', Renderer, JsonContext (?js @ [JString ''B'']) None)"
    and 3: "render_span 2 plain_platform ''{{#k}}{{.}}{{/k}}'' (tag_end ?tag) (tag_start ?endTag)
      Renderer (JsonContext (?js @ [JString ''C'']) None) =
      Done (''C'', Renderer, JsonContext (?js @ [JString ''C'']) None)"
    using j by simp_all
  have 4: "render_span 2 plain_platform ''{{#k}}{{.}}{{/k}}'' (tag_end ?tag) (tag_start ?endTag)
      Renderer (PropertyTreeContext (?pt @ [PTree ''A'' []]) None) =
      Done (''A'', Renderer, PropertyTreeContext (?pt @ [PTree ''A'' []]) None)"
    and 5: "render_span 2 plain_platform ''{{#k}}{{.}}{{/k}}'' (tag_end ?tag) (tag_start ?endTag)
      Renderer (PropertyTreeContext (?pt @ [PTree ''B'' []]) None) =
      Done (''B'', Renderer, PropertyTreeContext (?pt @ [PTree ''B'' []]) None)"
    and 6: "render_span 2 plain_platform ''{{#k}}{{.}}{{/k}}'' (tag_end ?tag) (tag_start ?endTag)
      Renderer (PropertyTreeContext (?pt @ [PTree ''C'' []]) None) =
      Done (''C'', Renderer, PropertyTreeContext (?pt @ [PTree ''C'' []]) None)"
    using q by simp_all
  note wj = section_list_order [OF three_end_tag t ej 1 2 3, of "[]" 0]
  note wp = section_list_order [OF three_end_tag t ep 4 5 6, of "[]" 0]
  from wj wp show ?thesis by simp
qed

section \<open>Falsiness\<close>

text \<open>
  \<^verbatim>\<open>JsonContext::isFalse\<close> is as the claim says, for strings without a NUL character
  (the comparison with \<open>false\<close> is made on \<^verbatim>\<open>c_str()\<close>): true for the boolean false,
  for null, which is also what an absent key resolves to, for the empty string and for
  \<open>false\<close> in any letter case; false for every number, object and array.
\<close>

lemma c_str_no_nul: "CHR 0x00 \<notin> set t \<Longrightarrow> c_str t = t"
  by (auto simp: c_str_def takeWhile_eq_all_conv)

lemma js_isFalse_cases:
  assumes "js_getValue stack key = Done v" and "\<forall>t. v = JString t \<longrightarrow> CHR 0x00 \<notin> set t"
  shows "isFalse P (JsonContext stack r) key =
        Done (v = JBool False \<or> v = JNull \<or> v = JString [] \<or>
              (\<exists>t. v = JString t \<and> map tolower t = ''false''))"
proof (cases v)
  case (JString t)
  with assms have "c_str t = t" by (simp add: c_str_no_nul)
  with assms JString show ?thesis by (simp add: isFalse_def js_isFalse_def obind_def) blast
qed (use assms in \<open>simp_all add: isFalse_def js_isFalse_def obind_def\<close>)

text \<open>
  Claim C4 does not hold of \<^verbatim>\<open>PropertyTreeContext::isFalse\<close>. It asks
  \<^verbatim>\<open>get_value<bool>\<close> first, which reads the data \<open>0\<close> as false; and for a node with
  children, whose data is empty, it falls through to \<^verbatim>\<open>data().empty()\<close>. So over the
  tree with \<open>n\<close> put to 0 and \<open>user\<close> holding the child \<open>name\<close> it is true for
  \<open>n\<close> and for \<open>user\<close>, where the claim says false for the value 0 and for a
  non-empty object, and where \<^verbatim>\<open>JsonContext::isFalse\<close> over the same data is false.
\<close>

theorem ptree_isFalse_against_json:
  "isFalse plain_platform
     (PropertyTreeContext
        [PTree [] [(''n'', PTree ''0'' []), (''user'', PTree [] [(''name'', PTree ''John'' [])])]]
        None) ''n'' = Done True \<and>
   isFalse plain_platform
     (PropertyTreeContext
        [PTree [] [(''n'', PTree ''0'' []), (''user'', PTree [] [(''name'', PTree ''John'' [])])]]
        None) ''user'' = Done True \<and>
   isFalse plain_platform
     (JsonContext
        [JObject [(''n'', JInt64 0), (''user'', JObject [(''name'', JString ''John'')])]]
        None) ''n'' = Done False \<and>
   isFalse plain_platform
     (JsonContext
        [JObject [(''n'', JInt64 0), (''user'', JObject [(''name'', JString ''John'')])]]
        None) ''user'' = Done False"
  by code_simp

section \<open>Delimiters and partials\<close>

text \<open>
  Claim C5. The partial case gives the same result whatever delimiter pair is active in
  the caller, apart from handing that pair back: the expansion does not depend on it, and
  after the expansion, error or not, the active pair is the caller's again. The render of
  the partial's content is only ever entered with the configured default pair.
\<close>

theorem partial_delimiter_isolation:
  "partial_case self tag outp (s\<lparr>m_tagStartMarker := a, m_tagEndMarker := b\<rparr>) c =
     (case partial_case self tag outp s c of
        Done (out, l, s', c') \<Rightarrow> Done (out, l, s'\<lparr>m_tagStartMarker := a, m_tagEndMarker := b\<rparr>, c')
      | Throw e \<Rightarrow> Throw e
      | Undefined \<Rightarrow> Undefined
      | NoFuel \<Rightarrow> NoFuel) \<and>
   (partial_case self tag outp s c = Done (out, l, s', c') \<longrightarrow>
      m_tagStartMarker s' = m_tagStartMarker s \<and> m_tagEndMarker s' = m_tagEndMarker s) \<and>
   partial_case self tag outp s c =
     partial_case
       (\<lambda>templ endPos ou lastTagEnd s1 c1.
          if m_tagStartMarker s1 = m_defaultTagStartMarker s \<and>
             m_tagEndMarker s1 = m_defaultTagEndMarker s
          then self templ endPos ou lastTagEnd s1 c1 else Undefined)
       tag outp s c"
proof (intro conjI impI)
  show "partial_case self tag outp (s\<lparr>m_tagStartMarker := a, m_tagEndMarker := b\<rparr>) c =
     (case partial_case self tag outp s c of
        Done (out, l, s', c') \<Rightarrow> Done (out, l, s'\<lparr>m_tagStartMarker := a, m_tagEndMarker := b\<rparr>, c')
      | Throw e \<Rightarrow> Throw e
      | Undefined \<Rightarrow> Undefined
      | NoFuel \<Rightarrow> NoFuel)"
    by (simp add: partial_case_def Let_def obind_def split: outcome.splits)
next
  assume "partial_case self tag outp s c = Done (out, l, s', c')"
  then show "m_tagStartMarker s' = m_tagStartMarker s"
    by (auto simp: partial_case_def Let_def obind_def split: outcome.splits if_splits)
next
  assume "partial_case self tag outp s c = Done (out, l, s', c')"
  then show "m_tagEndMarker s' = m_tagEndMarker s"
    by (auto simp: partial_case_def Let_def obind_def split: outcome.splits if_splits)
next
  show "partial_case self tag outp s c =
     partial_case
       (\<lambda>templ endPos ou lastTagEnd s1 c1.
          if m_tagStartMarker s1 = m_defaultTagStartMarker s \<and>
             m_tagEndMarker s1 = m_defaultTagEndMarker s
          then self templ endPos ou lastTagEnd s1 c1 else Undefined)
       tag outp s c"
    by (simp add: partial_case_def Let_def)
qed


theorem partial_delimiter_isolation_witness:
  "partial_case (render_loop 3 plain_platform)
     \<lparr>tag_type = Partial, tag_key = ''p'', tag_start = 0, tag_end = 6,
       tag_escapeMode = Escape, tag_indentation = 0\<rparr> []
     (Renderer\<lparr>m_tagStartMarker := ''<%'', m_tagEndMarker := ''%>''\<rparr>)
     (JsonContext [JObject [(''name'', JString ''John'')]]
        (Some (\<lambda>k. if k = ''p'' then ''{{=[ ]=}}[name]'' else []))) =
   Done (''John'', 6, Renderer\<lparr>m_tagStartMarker := ''<%'', m_tagEndMarker := ''%>''\<rparr>,
     JsonContext [JObject [(''name'', JString ''John'')]]
        (Some (\<lambda>k. if k = ''p'' then ''{{=[ ]=}}[name]'' else []))) \<and>
   m_tagStartMarker (Renderer\<lparr>m_tagStartMarker := ''<%'', m_tagEndMarker := ''%>''\<rparr>) = ''<%'' \<and>
   m_tagEndMarker (Renderer\<lparr>m_tagStartMarker := ''<%'', m_tagEndMarker := ''%>''\<rparr>) = ''%>''"
proof -
  have v: "step_view (partial_case (render_loop 3 plain_platform)
     \<lparr>tag_type = Partial, tag_key = ''p'', tag_start = 0, tag_end = 6,
       tag_escapeMode = Escape, tag_indentation = 0\<rparr> []
     (Renderer\<lparr>m_tagStartMarker := ''<%'', m_tagEndMarker := ''%>''\<rparr>)
     (JsonContext [JObject [(''name'', JString ''John'')]]
        (Some (\<lambda>k. if k = ''p'' then ''{{=[ ]=}}[name]'' else [])))) =
    Some (''John'', 6, Renderer\<lparr>m_tagStartMarker := ''<%'', m_tagEndMarker := ''%>''\<rparr>)"
    by code_simp
  note d = partial_case_view [OF v]
  from d partial_delimiter_isolation [where self = "render_loop 3 plain_platform"
      and tag = "\<lparr>tag_type = Partial, tag_key = ''p'', tag_start = 0, tag_end = 6,
       tag_escapeMode = Escape, tag_indentation = 0\<rparr>" and outp = "[]"
      and s = "Renderer\<lparr>m_tagStartMarker := ''<%'', m_tagEndMarker := ''%>''\<rparr>"
      and c = "JsonContext [JObject [(''name'', JString ''John'')]]
        (Some (\<lambda>k. if k = ''p'' then ''{{=[ ]=}}[name]'' else []))"
      and out = "''John''" and l = 6
      and s' = "Renderer\<lparr>m_tagStartMarker := ''<%'', m_tagEndMarker := ''%>''\<rparr>"
      and c' = "JsonContext [JObject [(''name'', JString ''John'')]]
        (Some (\<lambda>k. if k = ''p'' then ''{{=[ ]=}}[name]'' else []))"
      and a = "''<%''" and b = "''%>''"]
  show ?thesis by (simp add: Renderer_def)
qed

end
